theory Spec2Isabelle
  imports Complex_Main
begin

section \<open>Tile grid\<close>

text \<open>
  The map is a \<^verbatim>\<open>Uint8Array\<close> of \<open>mapSize * mapSize\<close> tile codes in row-major order:
  \<open>0\<close> is floor, \<open>9\<close> the exit portal, every other code a wall.  JavaScript numbers are
  modelled as mathematical reals (positions, distances, health, times) and as integers
  where the source floors them (tile coordinates, indices).  Reading a typed array
  outside its range yields \<^verbatim>\<open>undefined\<close>: the value \<open>None\<close>.
\<close>

definition tileAt :: "nat list \<Rightarrow> int \<Rightarrow> nat option" where
  "tileAt mapData i =
     (if 0 \<le> i \<and> i < int (length mapData) then Some (mapData ! nat i) else None)"

section \<open>Enemy: data and damage (Enemy class)\<close>

datatype EnemyState = IDLE | CHASE | ATTACK | DEAD

text \<open>
  The fields of an \<^verbatim>\<open>Enemy\<close> object, in the order the constructor assigns them.  A
  waypoint of \<^verbatim>\<open>path\<close> is the pair of its \<open>x\<close> and \<open>y\<close>.
\<close>

record enemy =
  e_id :: nat
  e_x :: real
  e_y :: real
  e_type :: string
  e_maxHealth :: real
  e_health :: real
  e_damage :: real
  e_speed :: real
  e_detectionRange :: real
  e_attackRange :: real
  e_attackCooldown :: real
  e_state :: EnemyState
  e_lastAttackTime :: real
  e_targetX :: real
  e_targetY :: real
  e_patrolTimer :: real
  e_patrolDirection :: real
  e_patrolChangeInterval :: real
  e_path :: "(real \<times> real) list"
  e_pathUpdateTimer :: real
  e_pathUpdateInterval :: real
  e_direction :: nat
  e_animationFrame :: nat

text \<open>
  \<^verbatim>\<open>stats.health || 50\<close>: an absent field (\<open>None\<close>) and the number \<open>0\<close> are falsy and
  give the default.
\<close>

definition orDefault :: "real option \<Rightarrow> real \<Rightarrow> real" where
  "orDefault v d = (case v of None \<Rightarrow> d | Some r \<Rightarrow> if r = 0 then d else r)"

record stats =
  s_health :: "real option"
  s_damage :: "real option"
  s_speed :: "real option"
  s_detectionRange :: "real option"
  s_attackRange :: "real option"
  s_attackCooldown :: "real option"

text \<open>
  The constructor.  \<open>r1\<close> and \<open>r2\<close> are the two values \<^verbatim>\<open>Math.random()\<close> returns for the
  patrol heading and the patrol interval.
\<close>

definition newEnemy :: "nat \<Rightarrow> real \<Rightarrow> real \<Rightarrow> string \<Rightarrow> stats \<Rightarrow> real \<Rightarrow> real \<Rightarrow> enemy" where
  "newEnemy i px py ty st r1 r2 =
     \<lparr> e_id = i, e_x = px, e_y = py, e_type = ty,
       e_maxHealth = orDefault (s_health st) 50,
       e_health = orDefault (s_health st) 50,
       e_damage = orDefault (s_damage st) 10,
       e_speed = orDefault (s_speed st) (3/10),
       e_detectionRange = orDefault (s_detectionRange st) 8,
       e_attackRange = orDefault (s_attackRange st) (3/2),
       e_attackCooldown = orDefault (s_attackCooldown st) 1000,
       e_state = IDLE,
       e_lastAttackTime = 0,
       e_targetX = px, e_targetY = py,
       e_patrolTimer = 0,
       e_patrolDirection = r1 * pi * 2,
       e_patrolChangeInterval = 2000 + r2 * 2000,
       e_path = [],
       e_pathUpdateTimer = 0,
       e_pathUpdateInterval = 500,
       e_direction = 0,
       e_animationFrame = 0 \<rparr>"

definition isAlive :: "enemy \<Rightarrow> bool" where
  "isAlive e = (e_state e \<noteq> DEAD)"

text \<open>
  \<^verbatim>\<open>takeDamage(amount)\<close>: the returned flag (the enemy died) and the enemy after the call.
\<close>

definition takeDamage :: "real \<Rightarrow> enemy \<Rightarrow> bool \<times> enemy" where
  "takeDamage amount e =
     (if e_state e = DEAD then (False, e)
      else
        (let e1 = e\<lparr>e_health := e_health e - amount\<rparr> in
         if e_health e1 \<le> 0 then (True, e1\<lparr>e_health := 0, e_state := DEAD\<rparr>)
         else if e_state e1 = IDLE then (False, e1\<lparr>e_state := CHASE\<rparr>)
         else (False, e1)))"

definition getDistance :: "enemy \<Rightarrow> real \<Rightarrow> real \<Rightarrow> real" where
  "getDistance e px py =
     (let dx = px - e_x e; dy = py - e_y e in sqrt (dx * dx + dy * dy))"

section \<open>Frame controller: player translation (SimpleRaycaster.jsx, animate)\<close>

record keys =
  forward :: bool
  backward :: bool
  strafeLeft :: bool
  strafeRight :: bool
  turnLeft :: bool
  turnRight :: bool

definition walkSpeed :: real where
  "walkSpeed = 3"

text \<open>\<^verbatim>\<open>(keys.forward ? 1 : 0) + (keys.backward ? -1 : 0)\<close>\<close>

definition inputMove :: "keys \<Rightarrow> int" where
  "inputMove k = (if forward k then 1 else 0) + (if backward k then - 1 else 0)"

definition inputStrafe :: "keys \<Rightarrow> int" where
  "inputStrafe k = (if strafeLeft k then 1 else 0) + (if strafeRight k then - 1 else 0)"

text \<open>
  Forward/backward block of \<^verbatim>\<open>animate\<close>: the target \<open>(tx, ty)\<close> is computed from both
  components of the direction, one tile index is read at the target, and \<open>x\<close> and \<open>y\<close>
  are assigned together when that tile is floor or portal.
\<close>

definition moveForward ::
  "nat list \<Rightarrow> int \<Rightarrow> real \<Rightarrow> real \<Rightarrow> int \<Rightarrow> real \<Rightarrow> real \<times> real \<Rightarrow> real \<times> real" where
  "moveForward mapData mapSize dirX dirY inMove dt p =
     (if inMove \<noteq> 0 then
        (let step = real_of_int inMove * walkSpeed * dt;
             tx = fst p + dirX * step;
             ty = snd p + dirY * step;
             mapIdx = \<lfloor>ty\<rfloor> * mapSize + \<lfloor>tx\<rfloor>;
             tileType = tileAt mapData mapIdx
         in if tileType = Some 0 \<or> tileType = Some 9 then (tx, ty) else p)
      else p)"

text \<open>Strafing block: the same test with the right vector \<open>(dirY, - dirX)\<close>.\<close>

definition moveStrafe ::
  "nat list \<Rightarrow> int \<Rightarrow> real \<Rightarrow> real \<Rightarrow> int \<Rightarrow> real \<Rightarrow> real \<times> real \<Rightarrow> real \<times> real" where
  "moveStrafe mapData mapSize dirX dirY inStrafe dt p =
     (if inStrafe \<noteq> 0 then
        (let step = real_of_int inStrafe * walkSpeed * dt;
             rx = dirY;
             ry = - dirX;
             tx = fst p + rx * step;
             ty = snd p + ry * step;
             mapIdx = \<lfloor>ty\<rfloor> * mapSize + \<lfloor>tx\<rfloor>;
             tileType = tileAt mapData mapIdx
         in if tileType = Some 0 \<or> tileType = Some 9 then (tx, ty) else p)
      else p)"

definition movePlayer ::
  "nat list \<Rightarrow> int \<Rightarrow> real \<Rightarrow> real \<Rightarrow> keys \<Rightarrow> real \<Rightarrow> real \<times> real \<Rightarrow> real \<times> real" where
  "movePlayer mapData mapSize dirX dirY k dt p =
     moveStrafe mapData mapSize dirX dirY (inputStrafe k) dt
       (moveForward mapData mapSize dirX dirY (inputMove k) dt p)"

text \<open>
  The behaviour the specification describes, written from its words: each axis is
  tested on its own destination tile, and a blocked axis is dropped while the other
  axis still moves.
\<close>

definition passable :: "nat list \<Rightarrow> int \<Rightarrow> real \<Rightarrow> real \<Rightarrow> bool" where
  "passable mapData mapSize px py =
     (let t = tileAt mapData (\<lfloor>py\<rfloor> * mapSize + \<lfloor>px\<rfloor>) in t = Some 0 \<or> t = Some 9)"

definition axisSeparatedMove ::
  "nat list \<Rightarrow> int \<Rightarrow> real \<times> real \<Rightarrow> real \<times> real \<Rightarrow> real \<times> real" where
  "axisSeparatedMove mapData mapSize p d =
     (let nx = (if passable mapData mapSize (fst p + fst d) (snd p) then fst p + fst d else fst p);
          ny = (if passable mapData mapSize (fst p) (snd p + snd d) then snd p + snd d else snd p)
      in (nx, ny))"

text \<open>A 4 x 4 map, all floor except the wall at column 2 of row 1.\<close>

definition grid4 :: "nat list" where
  "grid4 = [0, 0, 0, 0,
            0, 0, 1, 0,
            0, 0, 0, 0,
            0, 0, 0, 0]"

subsection \<open>C2: translation is accepted or rejected as a whole\<close>

lemma tileAt_grid4_5: "tileAt grid4 5 = Some 0"
  by (simp add: tileAt_def grid4_def)

lemma tileAt_grid4_6: "tileAt grid4 6 = Some 1"
  by (simp add: tileAt_def grid4_def)

text \<open>
  C2, as stated, fails.  The player stands at \<open>(1.95, 1.5)\<close> and walks forward along
  \<open>(3/5, 4/5)\<close> for \<open>dt = 0.05\<close>: the step is \<open>(0.09, 0.12)\<close>.  The tile reached along x
  is the wall, the tile reached along y is floor.  Sliding would keep the y component
  and end at \<open>(1.95, 1.62)\<close>; the code discards the whole step.
\<close>

theorem C2_counterexample:
  "moveForward grid4 4 (3/5) (4/5) 1 (1/20) (39/20, 3/2) = (39/20, 3/2)
   \<and> axisSeparatedMove grid4 4 (39/20, 3/2) (9/100, 3/25) = (39/20, 81/50)
   \<and> passable grid4 4 (39/20) (3/2 + 3/25)
   \<and> moveForward grid4 4 (3/5) (4/5) 1 (1/20) (39/20, 3/2)
       \<noteq> axisSeparatedMove grid4 4 (39/20, 3/2) (3/5 * (1 * walkSpeed * (1/20)), 4/5 * (1 * walkSpeed * (1/20)))"
  by (simp add: moveForward_def axisSeparatedMove_def passable_def walkSpeed_def
      tileAt_grid4_5 tileAt_grid4_6 Let_def)

text \<open>
  C2, amended: each translation (forward/backward, then strafe) is tested once, at the
  tile of its combined target.  When that tile is floor or portal both components are
  applied, otherwise both are discarded; so the x component is never applied without
  the y component of the same step or the other way round.  The strafe step is tested
  after, and independently of, the forward step.
\<close>

theorem C2_whole_step:
  "movePlayer mapData mapSize dirX dirY k dt p =
     moveStrafe mapData mapSize dirX dirY (inputStrafe k) dt
       (moveForward mapData mapSize dirX dirY (inputMove k) dt p)
   \<and> moveForward mapData mapSize dirX dirY m dt p =
       (if m \<noteq> 0 \<and> passable mapData mapSize
             (fst p + dirX * (real_of_int m * walkSpeed * dt))
             (snd p + dirY * (real_of_int m * walkSpeed * dt))
        then (fst p + dirX * (real_of_int m * walkSpeed * dt),
              snd p + dirY * (real_of_int m * walkSpeed * dt))
        else p)
   \<and> moveStrafe mapData mapSize dirX dirY s dt p =
       (if s \<noteq> 0 \<and> passable mapData mapSize
             (fst p + dirY * (real_of_int s * walkSpeed * dt))
             (snd p + (- dirX) * (real_of_int s * walkSpeed * dt))
        then (fst p + dirY * (real_of_int s * walkSpeed * dt),
              snd p + (- dirX) * (real_of_int s * walkSpeed * dt))
        else p)"
  by (simp add: movePlayer_def moveForward_def moveStrafe_def passable_def Let_def)

section \<open>Combat (engine/combat.js)\<close>

subsection \<open>IEEE values that the wall check can produce\<close>

text \<open>
  \<^verbatim>\<open>hasWallBetween\<close> divides by a direction component that is zero for an axis-aligned
  ray: \<^verbatim>\<open>Math.abs(1 / 0)\<close> is \<^verbatim>\<open>Infinity\<close>, not a number HOL's reals have (where
  \<open>1 / 0 = 0\<close>).  The side distances are therefore modelled with the infinities and NaN
  written out, with the IEEE rules for the operations the function applies to them.
\<close>

datatype jsnum = Num real | PosInf | NegInf | NaN

definition absInv :: "real \<Rightarrow> jsnum" where
  "absInv r = (if r = 0 then PosInf else Num \<bar>1 / r\<bar>)"

fun jmul :: "real \<Rightarrow> jsnum \<Rightarrow> jsnum" where
  "jmul a (Num b) = Num (a * b)"
| "jmul a PosInf = (if a > 0 then PosInf else if a < 0 then NegInf else NaN)"
| "jmul a NegInf = (if a > 0 then NegInf else if a < 0 then PosInf else NaN)"
| "jmul a NaN = NaN"

fun jadd :: "jsnum \<Rightarrow> jsnum \<Rightarrow> jsnum" where
  "jadd (Num a) (Num b) = Num (a + b)"
| "jadd NaN _ = NaN"
| "jadd _ NaN = NaN"
| "jadd PosInf NegInf = NaN"
| "jadd NegInf PosInf = NaN"
| "jadd PosInf _ = PosInf"
| "jadd _ PosInf = PosInf"
| "jadd NegInf _ = NegInf"
| "jadd _ NegInf = NegInf"

fun jneg :: "jsnum \<Rightarrow> jsnum" where
  "jneg (Num a) = Num (- a)"
| "jneg PosInf = NegInf"
| "jneg NegInf = PosInf"
| "jneg NaN = NaN"

definition jsub :: "jsnum \<Rightarrow> jsnum \<Rightarrow> jsnum" where
  "jsub a b = jadd a (jneg b)"

fun jlt :: "jsnum \<Rightarrow> jsnum \<Rightarrow> bool" where
  "jlt (Num a) (Num b) = (a < b)"
| "jlt NaN _ = False"
| "jlt _ NaN = False"
| "jlt NegInf NegInf = False"
| "jlt NegInf _ = True"
| "jlt PosInf _ = False"
| "jlt _ PosInf = True"
| "jlt _ NegInf = False"

text \<open>\<^verbatim>\<open>a >= b\<close> for a side distance \<open>a\<close> and a finite number \<open>b\<close>.\<close>

fun jge_real :: "jsnum \<Rightarrow> real \<Rightarrow> bool" where
  "jge_real (Num a) b = (a \<ge> b)"
| "jge_real PosInf b = True"
| "jge_real NegInf b = False"
| "jge_real NaN b = False"

subsection \<open>hasWallBetween\<close>

text \<open>
  The DDA loop of \<^verbatim>\<open>hasWallBetween\<close>, \<open>n\<close> iterations left of its 64.  The state is
  \<open>(mapX, mapY, sideDistX, sideDistY)\<close>; \<^verbatim>\<open>currentDist\<close> is local to an iteration.
\<close>

fun ddaLoop ::
  "nat \<Rightarrow> nat list \<Rightarrow> int \<Rightarrow> real \<Rightarrow> jsnum \<Rightarrow> jsnum \<Rightarrow> int \<Rightarrow> int
     \<Rightarrow> int \<Rightarrow> int \<Rightarrow> jsnum \<Rightarrow> jsnum \<Rightarrow> bool" where
  "ddaLoop 0 mapData mapSize distance deltaDistX deltaDistY stepX stepY mapX mapY sideDistX sideDistY = False"
| "ddaLoop (Suc n) mapData mapSize distance deltaDistX deltaDistY stepX stepY mapX mapY sideDistX sideDistY =
     (let (sideDistX', sideDistY', mapX', mapY', currentDist) =
            (if jlt sideDistX sideDistY
             then (jadd sideDistX deltaDistX, sideDistY, mapX + stepX, mapY,
                   jsub (jadd sideDistX deltaDistX) deltaDistX)
             else (sideDistX, jadd sideDistY deltaDistY, mapX, mapY + stepY,
                   jsub (jadd sideDistY deltaDistY) deltaDistY))
      in if jge_real currentDist distance then False
         else if mapX' < 0 \<or> mapX' \<ge> mapSize \<or> mapY' < 0 \<or> mapY' \<ge> mapSize then True
         else if (case tileAt mapData (mapY' * mapSize + mapX') of Some t \<Rightarrow> t > 0 | None \<Rightarrow> False)
           then True
         else ddaLoop n mapData mapSize distance deltaDistX deltaDistY stepX stepY
                mapX' mapY' sideDistX' sideDistY')"

definition hasWallBetween :: "real \<Rightarrow> real \<Rightarrow> real \<Rightarrow> real \<Rightarrow> nat list \<Rightarrow> int \<Rightarrow> bool" where
  "hasWallBetween x1 y1 x2 y2 mapData mapSize =
     (let dx = x2 - x1; dy = y2 - y1; distance = sqrt (dx * dx + dy * dy) in
      if distance < 1/100 then False
      else
        (let rayDirX = dx / distance; rayDirY = dy / distance;
             mapX = \<lfloor>x1\<rfloor>; mapY = \<lfloor>y1\<rfloor>;
             deltaDistX = absInv rayDirX; deltaDistY = absInv rayDirY;
             stepX = (if rayDirX < 0 then - 1 else 1);
             sideDistX = (if rayDirX < 0 then jmul (x1 - real_of_int mapX) deltaDistX
                          else jmul (real_of_int mapX + 1 - x1) deltaDistX);
             stepY = (if rayDirY < 0 then - 1 else 1);
             sideDistY = (if rayDirY < 0 then jmul (y1 - real_of_int mapY) deltaDistY
                          else jmul (real_of_int mapY + 1 - y1) deltaDistY)
         in ddaLoop 64 mapData mapSize distance deltaDistX deltaDistY stepX stepY
              mapX mapY sideDistX sideDistY))"

subsection \<open>raycastShoot\<close>

text \<open>
  The body of the loop over the enemies for the enemy at index \<open>i\<close>.  The accumulator is
  \<^verbatim>\<open>(closestEnemy, closestDistance)\<close>; the enemy reference is the index in the list
  passed in.  \<open>mapData\<close> is \<open>None\<close> for the default \<^verbatim>\<open>null\<close>.
\<close>

definition shootStep ::
  "real \<Rightarrow> real \<Rightarrow> real \<Rightarrow> real \<Rightarrow> real \<Rightarrow> nat list option \<Rightarrow> int
     \<Rightarrow> nat option \<times> real \<Rightarrow> nat \<times> enemy \<Rightarrow> nat option \<times> real" where
  "shootStep playerX playerY dirX dirY maxDistance mapData mapSize acc ie =
     (let i = fst ie; e = snd ie in
      if \<not> isAlive e then acc
      else
        (let dx = e_x e - playerX; dy = e_y e - playerY;
             distance = sqrt (dx * dx + dy * dy) in
         if distance > maxDistance then acc
         else if (case mapData of
                    Some m \<Rightarrow> mapSize > 0 \<and> hasWallBetween playerX playerY (e_x e) (e_y e) m mapSize
                  | None \<Rightarrow> False)
           then acc
         else
           (let ndx = dx / distance; ndy = dy / distance;
                dot = dirX * ndx + dirY * ndy in
            if dot > 9/10 then
              (let perpDist = \<bar>dx * dirY - dy * dirX\<bar> in
               if perpDist < 1/2 \<and> distance < snd acc then (Some i, distance) else acc)
            else acc)))"

record shot =
  hit :: bool
  target :: "nat option"
  distance :: real

definition raycastShoot ::
  "real \<Rightarrow> real \<Rightarrow> real \<Rightarrow> real \<Rightarrow> enemy list \<Rightarrow> real \<Rightarrow> nat list option \<Rightarrow> int \<Rightarrow> shot" where
  "raycastShoot playerX playerY dirX dirY enemies maxDistance mapData mapSize =
     (let r = foldl (shootStep playerX playerY dirX dirY maxDistance mapData mapSize)
                (None, maxDistance) (zip [0..<length enemies] enemies)
      in \<lparr> hit = (fst r \<noteq> None), target = fst r, distance = snd r \<rparr>)"

definition damageEnemy :: "enemy \<Rightarrow> real \<Rightarrow> bool \<times> enemy" where
  "damageEnemy e dmg = (if \<not> isAlive e then (False, e) else takeDamage dmg e)"

subsection \<open>Weapons and the combat manager\<close>

record weaponStats =
  w_name :: string
  w_damage :: real
  w_fireRate :: real
  w_range :: real

definition WEAPONS :: "string \<Rightarrow> weaponStats option" where
  "WEAPONS w =
     (if w = ''pistol'' then Some \<lparr> w_name = ''Pistol'', w_damage = 25, w_fireRate = 500, w_range = 20 \<rparr>
      else if w = ''shotgun'' then Some \<lparr> w_name = ''Shotgun'', w_damage = 50, w_fireRate = 1000, w_range = 10 \<rparr>
      else if w = ''rifle'' then Some \<lparr> w_name = ''Rifle'', w_damage = 35, w_fireRate = 300, w_range = 25 \<rparr>
      else None)"

record combatManager =
  cm_weapon :: string
  cm_lastShotTime :: real
  cm_kills :: nat

definition newCombatManager :: "string \<Rightarrow> combatManager" where
  "newCombatManager w = \<lparr> cm_weapon = w, cm_lastShotTime = 0, cm_kills = 0 \<rparr>"

text \<open>
  The object \<^verbatim>\<open>shoot\<close> returns: \<^verbatim>\<open>{fired: false, reason}\<close>, \<^verbatim>\<open>{fired: true, hit: true,
  enemy, died, damage, distance}\<close> or \<^verbatim>\<open>{fired: true, hit: false}\<close>.
\<close>

datatype shootResult =
    NotFired string
  | FiredHit nat bool real real
  | FiredMiss

definition fired :: "shootResult \<Rightarrow> bool" where
  "fired r = (case r of NotFired _ \<Rightarrow> False | _ \<Rightarrow> True)"

datatype shootError = TypeError

text \<open>
  \<^verbatim>\<open>shoot\<close> at clock reading \<open>now\<close> (\<^verbatim>\<open>Date.now()\<close>).  It returns the result object, the
  manager and the enemies after the call.  A weapon name that is not a key of the table
  makes \<^verbatim>\<open>weaponStats.fireRate\<close> throw.
\<close>

definition shoot ::
  "real \<Rightarrow> combatManager \<Rightarrow> real \<Rightarrow> real \<Rightarrow> real \<Rightarrow> real \<Rightarrow> enemy list \<Rightarrow> nat list option \<Rightarrow> int
     \<Rightarrow> shootError + (shootResult \<times> combatManager \<times> enemy list)" where
  "shoot now cm playerX playerY dirX dirY enemies mapData mapSize =
     (case WEAPONS (cm_weapon cm) of
        None \<Rightarrow> Inl TypeError
      | Some ws \<Rightarrow>
          if now - cm_lastShotTime cm < w_fireRate ws then Inr (NotFired ''cooldown'', cm, enemies)
          else
            (let result = raycastShoot playerX playerY dirX dirY enemies (w_range ws) mapData mapSize in
             case target result of
               Some i \<Rightarrow>
                 (let (died, e') = damageEnemy (enemies ! i) (w_damage ws);
                      cm1 = (if died then cm\<lparr>cm_kills := cm_kills cm + 1\<rparr> else cm);
                      cm2 = cm1\<lparr>cm_lastShotTime := now\<rparr>
                  in Inr (FiredHit i died (w_damage ws) (distance result), cm2, enemies[i := e']))
             | None \<Rightarrow> Inr (FiredMiss, cm\<lparr>cm_lastShotTime := now\<rparr>, enemies)))"

subsection \<open>C7: fire-rate cooldown\<close>

lemma shoot_cooldown:
  assumes "WEAPONS (cm_weapon cm) = Some ws" "now - cm_lastShotTime cm < w_fireRate ws"
  shows "shoot now cm px py dx dy es md ms = Inr (NotFired ''cooldown'', cm, es)"
  using assms by (simp add: shoot_def)

lemma shoot_fires:
  assumes "WEAPONS (cm_weapon cm) = Some ws" "\<not> now - cm_lastShotTime cm < w_fireRate ws"
  shows "\<exists>r cm' es'. shoot now cm px py dx dy es md ms = Inr (r, cm', es') \<and> fired r
           \<and> cm_lastShotTime cm' = now \<and> cm_weapon cm' = cm_weapon cm"
  using assms by (auto simp add: shoot_def Let_def fired_def split: option.splits prod.splits)

text \<open>
  C7.  A call of \<^verbatim>\<open>shoot\<close> made when the weapon is off cooldown fires (hit or miss) and
  sets \<^verbatim>\<open>lastShotTime\<close> to its clock reading.  A second call less than \<^verbatim>\<open>fireRate\<close>
  milliseconds later returns \<^verbatim>\<open>{fired: false, reason: 'cooldown'}\<close> and returns the manager
  (\<^verbatim>\<open>lastShotTime\<close>, \<^verbatim>\<open>kills\<close>) and the enemies it was given unchanged; a second call at
  least \<^verbatim>\<open>fireRate\<close> milliseconds later fires too and sets \<^verbatim>\<open>lastShotTime\<close> again.
\<close>

theorem C7_shoot_cooldown:
  assumes W: "WEAPONS (cm_weapon cm) = Some ws"
    and ready: "now1 - cm_lastShotTime cm \<ge> w_fireRate ws"
  shows "\<exists>r1 cm1 es1.
           shoot now1 cm px py dx dy es md ms = Inr (r1, cm1, es1) \<and> fired r1
           \<and> cm_lastShotTime cm1 = now1
           \<and> (now2 - now1 < w_fireRate ws \<longrightarrow>
                shoot now2 cm1 px2 py2 dx2 dy2 es2 md2 ms2 = Inr (NotFired ''cooldown'', cm1, es2))
           \<and> (now2 - now1 \<ge> w_fireRate ws \<longrightarrow>
                (\<exists>r2 cm2 es3. shoot now2 cm1 px2 py2 dx2 dy2 es2 md2 ms2 = Inr (r2, cm2, es3)
                   \<and> fired r2 \<and> cm_lastShotTime cm2 = now2))"
proof -
  from ready have nr: "\<not> now1 - cm_lastShotTime cm < w_fireRate ws" by simp
  from shoot_fires[OF W nr, of px py dx dy es md ms]
  obtain r1 cm1 es1 where
    s1: "shoot now1 cm px py dx dy es md ms = Inr (r1, cm1, es1)" and f1: "fired r1"
    and t1: "cm_lastShotTime cm1 = now1" and w1: "cm_weapon cm1 = cm_weapon cm"
    by blast
  from W w1 have W1: "WEAPONS (cm_weapon cm1) = Some ws" by simp
  have a: "now2 - now1 < w_fireRate ws \<longrightarrow>
      shoot now2 cm1 px2 py2 dx2 dy2 es2 md2 ms2 = Inr (NotFired ''cooldown'', cm1, es2)"
    using shoot_cooldown[OF W1, of now2] t1 by simp
  have b: "now2 - now1 \<ge> w_fireRate ws \<longrightarrow>
      (\<exists>r2 cm2 es3. shoot now2 cm1 px2 py2 dx2 dy2 es2 md2 ms2 = Inr (r2, cm2, es3)
         \<and> fired r2 \<and> cm_lastShotTime cm2 = now2)"
  proof
    assume "now2 - now1 \<ge> w_fireRate ws"
    then have "\<not> now2 - cm_lastShotTime cm1 < w_fireRate ws" using t1 by simp
    from shoot_fires[OF W1 this, of px2 py2 dx2 dy2 es2 md2 ms2]
    show "\<exists>r2 cm2 es3. shoot now2 cm1 px2 py2 dx2 dy2 es2 md2 ms2 = Inr (r2, cm2, es3)
         \<and> fired r2 \<and> cm_lastShotTime cm2 = now2" by blast
  qed
  from s1 f1 t1 a b show ?thesis by blast
qed

lemma WEAPONS_pistol: "WEAPONS ''pistol'' = Some \<lparr> w_name = ''Pistol'', w_damage = 25, w_fireRate = 500, w_range = 20 \<rparr>"
  by (simp add: WEAPONS_def)

lemma shoot_empty: "shoot 1000 (newCombatManager ''pistol'') 0 0 1 0 [] None 0 =
   Inr (FiredMiss, \<lparr> cm_weapon = ''pistol'', cm_lastShotTime = 1000, cm_kills = 0 \<rparr>, [])"
  by (simp add: shoot_def WEAPONS_pistol newCombatManager_def raycastShoot_def Let_def)

text \<open>
  The pistol (fire rate 500 ms) fired at time 1000 with no enemy in sight: a call at 1200
  is on cooldown, a call at 1500 fires.
\<close>

theorem C7_witness:
  "shoot 1000 (newCombatManager ''pistol'') 0 0 1 0 [] None 0 =
     Inr (FiredMiss, \<lparr> cm_weapon = ''pistol'', cm_lastShotTime = 1000, cm_kills = 0 \<rparr>, [])
   \<and> shoot 1200 \<lparr> cm_weapon = ''pistol'', cm_lastShotTime = 1000, cm_kills = 0 \<rparr> 0 0 1 0 [] None 0 =
     Inr (NotFired ''cooldown'', \<lparr> cm_weapon = ''pistol'', cm_lastShotTime = 1000, cm_kills = 0 \<rparr>, [])
   \<and> (\<exists>r2 cm2 es3. shoot 1500 \<lparr> cm_weapon = ''pistol'', cm_lastShotTime = 1000, cm_kills = 0 \<rparr> 0 0 1 0 [] None 0 =
         Inr (r2, cm2, es3) \<and> fired r2 \<and> cm_lastShotTime cm2 = 1500)"
  using C7_shoot_cooldown[of "newCombatManager ''pistol''" "\<lparr> w_name = ''Pistol'', w_damage = 25, w_fireRate = 500, w_range = 20 \<rparr>"
      1000 0 0 1 0 "[]" None 0 1200 0 0 1 0 "[]" None 0]
    C7_shoot_cooldown[of "newCombatManager ''pistol''" "\<lparr> w_name = ''Pistol'', w_damage = 25, w_fireRate = 500, w_range = 20 \<rparr>"
      1000 0 0 1 0 "[]" None 0 1500 0 0 1 0 "[]" None 0]
  by (simp add: shoot_empty) (simp add: newCombatManager_def WEAPONS_pistol)

subsection \<open>C8: an enemy at exactly the maximal distance\<close>

definition floor5 :: "nat list" where
  "floor5 = replicate 25 0"

definition noStats :: stats where
  "noStats = \<lparr> s_health = None, s_damage = None, s_speed = None, s_detectionRange = None,
               s_attackRange = None, s_attackCooldown = None \<rparr>"

definition target2 :: enemy where
  "target2 = newEnemy 0 (7/2) (3/2) ''orc'' noStats 0 0"

lemma tileAt_floor5: "0 \<le> i \<Longrightarrow> i < 25 \<Longrightarrow> tileAt floor5 i = Some 0"
  by (simp add: tileAt_def floor5_def)

lemma target2_simps: "e_x target2 = 7/2" "e_y target2 = 3/2" "isAlive target2"
  by (simp_all add: target2_def newEnemy_def isAlive_def)

lemma target2_no_wall: "hasWallBetween (3/2) (3/2) (7/2) (3/2) floor5 5 = False"
  by (simp add: hasWallBetween_def Let_def absInv_def jsub_def tileAt_floor5 eval_nat_numeral)

text \<open>
  C8 at its boundary.  On a 5 x 5 map of floor tiles the player stands at \<open>(1.5, 1.5)\<close>
  and faces along \<open>(1, 0)\<close>; a live enemy stands straight ahead at \<open>(3.5, 1.5)\<close>, and
  \<^verbatim>\<open>maxDistance\<close> is \<open>2\<close>.  The enemy passes every filter the claim lists: its distance
  \<open>2\<close> is at most \<^verbatim>\<open>maxDistance\<close> (the guard \<^verbatim>\<open>distance > maxDistance\<close> lets it through), no
  wall lies between, the dot product is \<open>1\<close>, the perpendicular distance \<open>0\<close>.  Yet no
  hit is reported: \<^verbatim>\<open>closestDistance\<close> starts at \<^verbatim>\<open>maxDistance\<close> and the selection tests
  \<^verbatim>\<open>distance < closestDistance\<close>.
\<close>

theorem C8_boundary_miss:
  "isAlive target2
   \<and> sqrt ((e_x target2 - 3/2) * (e_x target2 - 3/2) + (e_y target2 - 3/2) * (e_y target2 - 3/2)) = 2
   \<and> \<not> hasWallBetween (3/2) (3/2) (e_x target2) (e_y target2) floor5 5
   \<and> 1 * ((e_x target2 - 3/2) / 2) + 0 * ((e_y target2 - 3/2) / 2) > (9/10 :: real)
   \<and> \<bar>(e_x target2 - 3/2) * 0 - (e_y target2 - 3/2) * 1\<bar> < (1/2 :: real)
   \<and> raycastShoot (3/2) (3/2) 1 0 [target2] 2 (Some floor5) 5
        = \<lparr> hit = False, target = None, distance = 2 \<rparr>"
  by (simp add: target2_simps target2_no_wall raycastShoot_def shootStep_def Let_def)

section \<open>Enemy: line of sight (Enemy.hasLineOfSight)\<close>

text \<open>
  One sample of the ray: the bounds check and the wall check of the loop body, true when
  the sample does not end the loop with \<^verbatim>\<open>return false\<close>.
\<close>

definition sampleClear :: "nat list \<Rightarrow> int \<Rightarrow> real \<Rightarrow> real \<Rightarrow> bool" where
  "sampleClear mapData mapSize checkX checkY =
     (let mapX = \<lfloor>checkX\<rfloor>; mapY = \<lfloor>checkY\<rfloor> in
      if mapX < 0 \<or> mapX \<ge> mapSize \<or> mapY < 0 \<or> mapY \<ge> mapSize then False
      else if tileAt mapData (mapY * mapSize + mapX) \<noteq> Some 0 then False
      else True)"

text \<open>The loop \<^verbatim>\<open>for (let i = 0; i < steps; i++)\<close>, from index \<open>i\<close> on.\<close>

function losLoop :: "nat \<Rightarrow> nat \<Rightarrow> real \<Rightarrow> real \<Rightarrow> real \<Rightarrow> real \<Rightarrow> nat list \<Rightarrow> int \<Rightarrow> bool" where
  "losLoop i steps ox oy dirX dirY mapData mapSize =
     (if i < steps then
        (if \<not> sampleClear mapData mapSize (ox + dirX * (real i * (1/2))) (oy + dirY * (real i * (1/2)))
         then False
         else losLoop (i + 1) steps ox oy dirX dirY mapData mapSize)
      else True)"
  by pat_completeness auto
termination
  by (relation "measure (\<lambda>(i, steps, ox, oy, dirX, dirY, mapData, mapSize). steps - i)") auto

declare losLoop.simps [simp del]

definition hasLineOfSight :: "enemy \<Rightarrow> real \<Rightarrow> real \<Rightarrow> nat list \<Rightarrow> int \<Rightarrow> bool" where
  "hasLineOfSight e targetX targetY mapData mapSize =
     (let dx = targetX - e_x e; dy = targetY - e_y e;
          distance = sqrt (dx * dx + dy * dy);
          dirX = dx / distance; dirY = dy / distance;
          steps = nat \<lceil>distance * 2\<rceil>
      in losLoop 0 steps (e_x e) (e_y e) dirX dirY mapData mapSize)"

subsection \<open>The loop as a condition on every sample\<close>

lemma losLoop_iff:
  "losLoop i steps ox oy dirX dirY mapData mapSize =
     (\<forall>j. i \<le> j \<and> j < steps \<longrightarrow>
        sampleClear mapData mapSize (ox + dirX * (real j * (1/2))) (oy + dirY * (real j * (1/2))))"
proof (induction i steps ox oy dirX dirY mapData mapSize rule: losLoop.induct)
  case (1 i steps ox oy dirX dirY mapData mapSize)
  show ?case
  proof (cases "i < steps")
    case False
    then show ?thesis by (subst losLoop.simps) auto
  next
    case True
    show ?thesis
    proof (cases "sampleClear mapData mapSize (ox + dirX * (real i * (1/2))) (oy + dirY * (real i * (1/2)))")
      case False
      with True show ?thesis by (subst losLoop.simps) auto
    next
      case c: True
      have "losLoop i steps ox oy dirX dirY mapData mapSize
            = losLoop (i + 1) steps ox oy dirX dirY mapData mapSize"
        using True c by (subst losLoop.simps) simp
      also have "\<dots> = (\<forall>j. i + 1 \<le> j \<and> j < steps \<longrightarrow>
        sampleClear mapData mapSize (ox + dirX * (real j * (1/2))) (oy + dirY * (real j * (1/2))))"
        using 1 True c by simp
      also have "\<dots> = (\<forall>j. i \<le> j \<and> j < steps \<longrightarrow>
        sampleClear mapData mapSize (ox + dirX * (real j * (1/2))) (oy + dirY * (real j * (1/2))))"
      proof (intro iffI allI impI)
        fix j assume h: "\<forall>j. i + 1 \<le> j \<and> j < steps \<longrightarrow>
          sampleClear mapData mapSize (ox + dirX * (real j * (1/2))) (oy + dirY * (real j * (1/2)))"
          and j: "i \<le> j \<and> j < steps"
        show "sampleClear mapData mapSize (ox + dirX * (real j * (1/2))) (oy + dirY * (real j * (1/2)))"
        proof (cases "j = i")
          case True then show ?thesis using c by simp
        next
          case False then show ?thesis using h j by simp
        qed
      next
        fix j assume h: "\<forall>j. i \<le> j \<and> j < steps \<longrightarrow>
          sampleClear mapData mapSize (ox + dirX * (real j * (1/2))) (oy + dirY * (real j * (1/2)))"
          and j: "i + 1 \<le> j \<and> j < steps"
        then show "sampleClear mapData mapSize (ox + dirX * (real j * (1/2))) (oy + dirY * (real j * (1/2)))"
          by simp
      qed
      finally show ?thesis .
    qed
  qed
qed


subsection \<open>C9: line of sight and the reverse check\<close>











subsection \<open>The check in the arithmetic of the program\<close>


















subsection \<open>The rounding of the program\<close>






section \<open>Dungeon generation (engine/dungeon.js)\<close>

text \<open>
  \<^verbatim>\<open>Math.random()\<close> is modelled by a stream \<open>rnd\<close> of the values it returns, each in
  \<open>[0, 1)\<close>, and a counter of the values consumed so far: every function that draws
  random numbers takes the counter and returns the new one.
\<close>

definition validRandom :: "(nat \<Rightarrow> real) \<Rightarrow> bool" where
  "validRandom rnd = (\<forall>n. 0 \<le> rnd n \<and> rnd n < 1)"

record Room =
  r_x :: int
  r_y :: int
  r_width :: int
  r_height :: int
  r_centerX :: int
  r_centerY :: int

definition newRoom :: "int \<Rightarrow> int \<Rightarrow> int \<Rightarrow> int \<Rightarrow> Room" where
  "newRoom px py w h =
     \<lparr> r_x = px, r_y = py, r_width = w, r_height = h,
       r_centerX = \<lfloor>real_of_int px + real_of_int w / 2\<rfloor>,
       r_centerY = \<lfloor>real_of_int py + real_of_int h / 2\<rfloor> \<rparr>"

text \<open>
  A \<^verbatim>\<open>BSPNode\<close> object: its rectangle, its two children and its room, each \<^verbatim>\<open>null\<close>
  (\<open>None\<close>) or set.
\<close>

datatype BSPNode =
  BSPNode (n_x: int) (n_y: int) (n_width: int) (n_height: int)
    (leftChild: "BSPNode option") (rightChild: "BSPNode option") (room: "Room option")

definition newNode :: "int \<Rightarrow> int \<Rightarrow> int \<Rightarrow> int \<Rightarrow> BSPNode" where
  "newNode px py w h = BSPNode px py w h None None None"

text \<open>
  \<^verbatim>\<open>split(minRoomSize)\<close>: the returned flag, the node after the call and the counter of
  random values.  The split direction is drawn before the size test.
\<close>

definition split :: "(nat \<Rightarrow> real) \<Rightarrow> nat \<Rightarrow> int \<Rightarrow> BSPNode \<Rightarrow> bool \<times> BSPNode \<times> nat" where
  "split rnd n minRoomSize node =
     (if leftChild node \<noteq> None \<or> rightChild node \<noteq> None then (False, node, n)
      else
        (let splitHorizontally = (rnd n > 1/2);
             mx = (if splitHorizontally then n_height node else n_width node) - minRoomSize
         in if mx \<le> minRoomSize then (False, node, n + 1)
            else
              (let sp = \<lfloor>rnd (n + 1) * real_of_int (mx - minRoomSize)\<rfloor> + minRoomSize in
               if splitHorizontally then
                 (True,
                  BSPNode (n_x node) (n_y node) (n_width node) (n_height node)
                    (Some (newNode (n_x node) (n_y node) (n_width node) sp))
                    (Some (newNode (n_x node) (n_y node + sp) (n_width node) (n_height node - sp)))
                    (room node),
                  n + 2)
               else
                 (True,
                  BSPNode (n_x node) (n_y node) (n_width node) (n_height node)
                    (Some (newNode (n_x node) (n_y node) sp (n_height node)))
                    (Some (newNode (n_x node + sp) (n_y node) (n_width node - sp) (n_height node)))
                    (room node),
                  n + 2))))"

text \<open>
  The objects of the \<^verbatim>\<open>containers\<close> array are nodes of the tree under \<^verbatim>\<open>root\<close>; a
  reference to one is modelled by the path from the root to it, and a call of
  \<^verbatim>\<open>container.split\<close> by \<open>splitAt\<close>, which rebuilds the tree around the node it splits.
\<close>

datatype dir = L | R

fun splitAt :: "(nat \<Rightarrow> real) \<Rightarrow> nat \<Rightarrow> int \<Rightarrow> dir list \<Rightarrow> BSPNode \<Rightarrow> bool \<times> BSPNode \<times> nat" where
  "splitAt rnd n minRoomSize [] node = split rnd n minRoomSize node"
| "splitAt rnd n minRoomSize (L # p) (BSPNode px py w h lc rc rm) =
     (case lc of
        None \<Rightarrow> (False, BSPNode px py w h lc rc rm, n)
      | Some l \<Rightarrow>
          (let (ok, l', n') = splitAt rnd n minRoomSize p l
           in (ok, BSPNode px py w h (Some l') rc rm, n')))"
| "splitAt rnd n minRoomSize (R # p) (BSPNode px py w h lc rc rm) =
     (case rc of
        None \<Rightarrow> (False, BSPNode px py w h lc rc rm, n)
      | Some r \<Rightarrow>
          (let (ok, r', n') = splitAt rnd n minRoomSize p r
           in (ok, BSPNode px py w h lc (Some r') rm, n')))"

text \<open>
  The body of \<^verbatim>\<open>for (const container of currentContainers)\<close>.  The state is the tree,
  the \<^verbatim>\<open>containers\<close> array and the counter of random values.
\<close>

definition splitContainer ::
  "(nat \<Rightarrow> real) \<Rightarrow> int \<Rightarrow> BSPNode \<times> dir list list \<times> nat \<Rightarrow> dir list
     \<Rightarrow> BSPNode \<times> dir list list \<times> nat" where
  "splitContainer rnd minRoomSize st container =
     (let (root, containers, n) = st;
          (ok, root', n') = splitAt rnd n minRoomSize container root
      in if ok then (root', remove1 container (containers @ [container @ [L], container @ [R]]), n')
         else (root', containers, n'))"

text \<open>One round of the outer loop, over a copy of \<^verbatim>\<open>containers\<close>, and \<open>k\<close> rounds.\<close>

definition splitRound ::
  "(nat \<Rightarrow> real) \<Rightarrow> int \<Rightarrow> BSPNode \<times> dir list list \<times> nat \<Rightarrow> BSPNode \<times> dir list list \<times> nat" where
  "splitRound rnd minRoomSize st =
     (let currentContainers = fst (snd st)
      in foldl (splitContainer rnd minRoomSize) st currentContainers)"

fun splitRounds ::
  "nat \<Rightarrow> (nat \<Rightarrow> real) \<Rightarrow> int \<Rightarrow> BSPNode \<times> dir list list \<times> nat \<Rightarrow> BSPNode \<times> dir list list \<times> nat" where
  "splitRounds 0 rnd minRoomSize st = st"
| "splitRounds (Suc k) rnd minRoomSize st = splitRounds k rnd minRoomSize (splitRound rnd minRoomSize st)"

text \<open>\<^verbatim>\<open>createRoom\<close>: rooms in the leaves, left subtree first.\<close>

fun createRoom :: "(nat \<Rightarrow> real) \<Rightarrow> nat \<Rightarrow> int \<Rightarrow> int \<Rightarrow> BSPNode \<Rightarrow> BSPNode \<times> nat" where
  "createRoom rnd n minRoomSize maxRoomSize (BSPNode px py w h lc rc rm) =
     (if lc \<noteq> None \<or> rc \<noteq> None then
        (let (lc', n1) = (case lc of
                            None \<Rightarrow> (None, n)
                          | Some l \<Rightarrow> (let (l', k) = createRoom rnd n minRoomSize maxRoomSize l
                                       in (Some l', k)));
             (rc', n2) = (case rc of
                            None \<Rightarrow> (None, n1)
                          | Some r \<Rightarrow> (let (r', k) = createRoom rnd n1 minRoomSize maxRoomSize r
                                       in (Some r', k)))
         in (BSPNode px py w h lc' rc' rm, n2))
      else
        (let roomWidth = min (\<lfloor>rnd n * real_of_int (maxRoomSize - minRoomSize)\<rfloor> + minRoomSize) (w - 2);
             roomHeight = min (\<lfloor>rnd (n + 1) * real_of_int (maxRoomSize - minRoomSize)\<rfloor> + minRoomSize) (h - 2);
             roomX = px + \<lfloor>rnd (n + 2) * real_of_int (w - roomWidth - 1)\<rfloor> + 1;
             roomY = py + \<lfloor>rnd (n + 3) * real_of_int (h - roomHeight - 1)\<rfloor> + 1
         in (BSPNode px py w h lc rc (Some (newRoom roomX roomY roomWidth roomHeight)), n + 4)))"

text \<open>\<^verbatim>\<open>getRoom\<close>: a room of the subtree, or \<^verbatim>\<open>null\<close>; both children are asked first.\<close>

fun getRoom :: "(nat \<Rightarrow> real) \<Rightarrow> nat \<Rightarrow> BSPNode \<Rightarrow> Room option \<times> nat" where
  "getRoom rnd n (BSPNode px py w h lc rc rm) =
     (case rm of
        Some r \<Rightarrow> (Some r, n)
      | None \<Rightarrow>
          (let (leftRoom, n1) = (case lc of None \<Rightarrow> (None, n) | Some l \<Rightarrow> getRoom rnd n l);
               (rightRoom, n2) = (case rc of None \<Rightarrow> (None, n1) | Some r \<Rightarrow> getRoom rnd n1 r)
           in if leftRoom = None then (rightRoom, n2)
              else if rightRoom = None then (leftRoom, n2)
              else (if rnd n2 > 1/2 then leftRoom else rightRoom, n2 + 1)))"

fun getAllRooms :: "BSPNode \<Rightarrow> Room list" where
  "getAllRooms (BSPNode px py w h lc rc rm) =
     (case rm of None \<Rightarrow> [] | Some r \<Rightarrow> [r])
     @ (case lc of None \<Rightarrow> [] | Some l \<Rightarrow> getAllRooms l)
     @ (case rc of None \<Rightarrow> [] | Some r \<Rightarrow> getAllRooms r)"

subsection \<open>Carving\<close>

text \<open>
  The guarded write \<^verbatim>\<open>if (x >= 0 && x < size && y >= 0 && y < size) mapData[y * size + x] = v\<close>.
\<close>

definition writeTile :: "nat list \<Rightarrow> int \<Rightarrow> int \<Rightarrow> int \<Rightarrow> nat \<Rightarrow> nat list" where
  "writeTile mapData sz px py v =
     (if px \<ge> 0 \<and> px < sz \<and> py \<ge> 0 \<and> py < sz
      then mapData[nat (py * sz + px) := v] else mapData)"

definition carveRoom :: "nat list \<Rightarrow> int \<Rightarrow> Room \<Rightarrow> nat list" where
  "carveRoom mapData sz rm =
     foldl (\<lambda>m px. foldl (\<lambda>m' py. writeTile m' sz px py 0) m
                      [r_y rm .. r_y rm + r_height rm - 1])
       mapData [r_x rm .. r_x rm + r_width rm - 1]"

definition createHorizontalTunnel :: "int \<Rightarrow> int \<Rightarrow> int \<Rightarrow> nat list \<Rightarrow> int \<Rightarrow> nat list" where
  "createHorizontalTunnel x1 x2 py mapData sz =
     foldl (\<lambda>m px. writeTile m sz px py 0) mapData [min x1 x2 .. max x1 x2]"

definition createVerticalTunnel :: "int \<Rightarrow> int \<Rightarrow> int \<Rightarrow> nat list \<Rightarrow> int \<Rightarrow> nat list" where
  "createVerticalTunnel y1 y2 px mapData sz =
     foldl (\<lambda>m py. writeTile m sz px py 0) mapData [min y1 y2 .. max y1 y2]"

definition createCorridor ::
  "(nat \<Rightarrow> real) \<Rightarrow> nat \<Rightarrow> Room \<Rightarrow> Room \<Rightarrow> nat list \<Rightarrow> int \<Rightarrow> nat list \<times> nat" where
  "createCorridor rnd n room1 room2 mapData sz =
     (let x1 = r_centerX room1; y1 = r_centerY room1;
          x2 = r_centerX room2; y2 = r_centerY room2
      in if rnd n > 1/2
         then (createVerticalTunnel y1 y2 x2 (createHorizontalTunnel x1 x2 y1 mapData sz) sz, n + 1)
         else (createHorizontalTunnel x1 x2 y2 (createVerticalTunnel y1 y2 x1 mapData sz) sz, n + 1))"

fun connectRooms :: "(nat \<Rightarrow> real) \<Rightarrow> nat \<Rightarrow> BSPNode \<Rightarrow> nat list \<Rightarrow> int \<Rightarrow> nat list \<times> nat" where
  "connectRooms rnd n (BSPNode px py w h lc rc rm) mapData sz =
     (case lc of
        None \<Rightarrow> (mapData, n)
      | Some l \<Rightarrow>
          (case rc of
             None \<Rightarrow> (mapData, n)
           | Some r \<Rightarrow>
               (let (m1, n1) = connectRooms rnd n l mapData sz;
                    (m2, n2) = connectRooms rnd n1 r m1 sz;
                    (leftRoom, n3) = getRoom rnd n2 l;
                    (rightRoom, n4) = getRoom rnd n3 r
                in case leftRoom of
                     None \<Rightarrow> (m2, n4)
                   | Some lr \<Rightarrow>
                       (case rightRoom of
                          None \<Rightarrow> (m2, n4)
                        | Some rr \<Rightarrow> createCorridor rnd n4 lr rr m2 sz))))"

subsection \<open>generateDungeon\<close>

record dungeon =
  d_mapData :: "nat list"
  d_size :: int
  d_rooms :: "Room list"
  d_playerStart :: "int \<times> int"
  d_exit :: "int \<times> int"

datatype genError = NoRoom

text \<open>
  The dimensions are natural numbers and \<open>seed\<close> is not used by the source.  Reading
  \<^verbatim>\<open>rooms[0].centerX\<close> of an empty list of rooms would throw; that is the error value.
\<close>

definition generateDungeon ::
  "nat \<Rightarrow> nat \<Rightarrow> nat \<Rightarrow> nat \<Rightarrow> (nat \<Rightarrow> real) \<Rightarrow> genError + dungeon" where
  "generateDungeon sz minRoomSize maxRoomSize recursionDepth rnd =
     (let mapData0 = replicate (sz * sz) (1::nat);
          root0 = newNode 0 0 (int sz) (int sz);
          (root1, containers, n1) = splitRounds recursionDepth rnd (int minRoomSize) (root0, [[]], 0);
          (root2, n2) = createRoom rnd n1 (int minRoomSize) (int maxRoomSize) root1;
          rooms = getAllRooms root2;
          mapData1 = foldl (\<lambda>m rm. carveRoom m (int sz) rm) mapData0 rooms;
          (mapData2, n3) = connectRooms rnd n2 root2 mapData1 (int sz)
      in if rooms = [] then Inl NoRoom
         else
           (let startRoom = rooms ! 0;
                playerStart = (r_centerX startRoom, r_centerY startRoom);
                exitRoom = rooms ! (length rooms - 1);
                ex = (r_centerX exitRoom, r_centerY exitRoom);
                mapData3 = writeTile mapData2 (int sz) (fst ex) (snd ex) 9
            in Inr \<lparr> d_mapData = mapData3, d_size = int sz, d_rooms = rooms,
                     d_playerStart = playerStart, d_exit = ex \<rparr>))"

subsection \<open>Tiles by coordinates\<close>

definition inGrid :: "int \<Rightarrow> int \<times> int \<Rightarrow> bool" where
  "inGrid sz p = (0 \<le> fst p \<and> fst p < sz \<and> 0 \<le> snd p \<and> snd p < sz)"

text \<open>The code of the tile at column \<open>fst p\<close> and row \<open>snd p\<close>, \<open>None\<close> outside the grid.\<close>

definition tileOf :: "nat list \<Rightarrow> int \<Rightarrow> int \<times> int \<Rightarrow> nat option" where
  "tileOf mapData sz p = (if inGrid sz p then tileAt mapData (snd p * sz + fst p) else None)"

lemma index_range:
  assumes "inGrid sz p"
  shows "0 \<le> snd p * sz + fst p \<and> snd p * sz + fst p < sz * sz"
proof -
  from assms have a: "0 \<le> fst p" "fst p < sz" "0 \<le> snd p" "snd p + 1 \<le> sz"
    by (simp_all add: inGrid_def)
  then have "0 \<le> sz" by simp
  have "(snd p + 1) * sz \<le> sz * sz" using a(4) \<open>0 \<le> sz\<close> by (rule mult_right_mono)
  then have "snd p * sz + sz \<le> sz * sz" by (simp add: algebra_simps)
  moreover have "0 \<le> snd p * sz" using a(3) \<open>0 \<le> sz\<close> by simp
  ultimately show ?thesis using a(1,2) by linarith
qed

lemma index_inj:
  assumes "inGrid sz p" "inGrid sz q" "snd p * sz + fst p = snd q * sz + fst q"
  shows "p = q"
proof -
  from assms have p: "0 \<le> fst p" "fst p < sz" and q: "0 \<le> fst q" "fst q < sz"
    by (simp_all add: inGrid_def)
  then have nz: "sz \<noteq> 0" by auto
  have "(snd p * sz + fst p) mod sz = fst p" "(snd q * sz + fst q) mod sz = fst q"
    using p q by simp_all
  with assms(3) have f: "fst p = fst q" by simp
  have "(snd p * sz + fst p) div sz = snd p" "(snd q * sz + fst q) div sz = snd q"
    using p q nz by simp_all
  with assms(3) have "snd p = snd q" by simp
  with f show ?thesis by (simp add: prod_eq_iff)
qed

lemma length_writeTile [simp]: "length (writeTile g sz px py v) = length g"
  by (simp add: writeTile_def)

lemma tileOf_writeTile:
  assumes len: "length g = nat (sz * sz)"
  shows "tileOf (writeTile g sz px py v) sz p =
           (if inGrid sz (px, py) \<and> p = (px, py) then Some v else tileOf g sz p)"
proof (cases "inGrid sz (px, py)")
  case False
  then show ?thesis by (auto simp add: writeTile_def inGrid_def)
next
  case w: True
  then have wt: "writeTile g sz px py v = g[nat (py * sz + px) := v]"
    by (simp add: writeTile_def inGrid_def)
  show ?thesis
  proof (cases "inGrid sz p")
    case False
    with w show ?thesis by (auto simp add: tileOf_def)
  next
    case True
    from index_range[OF True] index_range[OF w]
    have r: "0 \<le> snd p * sz + fst p" "snd p * sz + fst p < sz * sz"
      "0 \<le> py * sz + px" "py * sz + px < sz * sz" by simp_all
    show ?thesis
    proof (cases "p = (px, py)")
      case True
      with w r len show ?thesis
        by (simp add: tileOf_def tileAt_def wt)
    next
      case False
      with index_inj[OF True w] have "snd p * sz + fst p \<noteq> py * sz + px" by auto
      then have "nat (snd p * sz + fst p) \<noteq> nat (py * sz + px)" using r by simp
      with False True r len show ?thesis
        by (simp add: tileOf_def tileAt_def wt)
    qed
  qed
qed

lemma foldl_write_row:
  assumes "length g = nat (sz * sz)"
  shows "length (foldl (\<lambda>m px. writeTile m sz px py v) g xs) = nat (sz * sz)
       \<and> tileOf (foldl (\<lambda>m px. writeTile m sz px py v) g xs) sz p =
           (if inGrid sz p \<and> snd p = py \<and> fst p \<in> set xs then Some v else tileOf g sz p)"
  using assms
proof (induction xs arbitrary: g)
  case Nil
  then show ?case by simp
next
  case (Cons a xs)
  have l: "length (writeTile g sz a py v) = nat (sz * sz)" using Cons.prems by simp
  show ?case
    using Cons.IH[OF l] tileOf_writeTile[OF Cons.prems, of a py v p]
    by (auto simp add: prod_eq_iff)
qed

lemma foldl_write_col:
  assumes "length g = nat (sz * sz)"
  shows "length (foldl (\<lambda>m py. writeTile m sz px py v) g ys) = nat (sz * sz)
       \<and> tileOf (foldl (\<lambda>m py. writeTile m sz px py v) g ys) sz p =
           (if inGrid sz p \<and> fst p = px \<and> snd p \<in> set ys then Some v else tileOf g sz p)"
  using assms
proof (induction ys arbitrary: g)
  case Nil
  then show ?case by simp
next
  case (Cons a ys)
  have l: "length (writeTile g sz px a v) = nat (sz * sz)" using Cons.prems by simp
  show ?case
    using Cons.IH[OF l] tileOf_writeTile[OF Cons.prems, of px a v p]
    by (auto simp add: prod_eq_iff)
qed

text \<open>The tiles of a room: the columns and rows its carving loops run over.\<close>

definition roomTiles :: "Room \<Rightarrow> (int \<times> int) set" where
  "roomTiles rm =
     {p. r_x rm \<le> fst p \<and> fst p < r_x rm + r_width rm
       \<and> r_y rm \<le> snd p \<and> snd p < r_y rm + r_height rm}"

lemma carveRoom_tiles:
  assumes "length g = nat (sz * sz)"
  shows "length (carveRoom g sz rm) = nat (sz * sz)
       \<and> tileOf (carveRoom g sz rm) sz p =
           (if inGrid sz p \<and> p \<in> roomTiles rm then Some 0 else tileOf g sz p)"
proof -
  have cols: "length (foldl (\<lambda>m px. foldl (\<lambda>m' py. writeTile m' sz px py 0) m ys) g xs) = nat (sz * sz)
       \<and> tileOf (foldl (\<lambda>m px. foldl (\<lambda>m' py. writeTile m' sz px py 0) m ys) g xs) sz p =
           (if inGrid sz p \<and> fst p \<in> set xs \<and> snd p \<in> set ys then Some 0 else tileOf g sz p)"
    if "length g = nat (sz * sz)" for g xs ys
    using that
  proof (induction xs arbitrary: g)
    case Nil
    then show ?case by simp
  next
    case (Cons a xs)
    note c = foldl_write_col[OF Cons.prems, of a 0 ys p]
    from c have l: "length (foldl (\<lambda>m' py. writeTile m' sz a py 0) g ys) = nat (sz * sz)" by simp
    show ?case using Cons.IH[OF l] c by auto
  qed
  show ?thesis
    using cols[OF assms, of "[r_y rm .. r_y rm + r_height rm - 1]" "[r_x rm .. r_x rm + r_width rm - 1]"]
    by (auto simp add: carveRoom_def roomTiles_def)
qed

lemma horizontalTunnel_tiles:
  assumes "length g = nat (sz * sz)"
  shows "length (createHorizontalTunnel x1 x2 py g sz) = nat (sz * sz)
       \<and> tileOf (createHorizontalTunnel x1 x2 py g sz) sz p =
           (if inGrid sz p \<and> snd p = py \<and> min x1 x2 \<le> fst p \<and> fst p \<le> max x1 x2
            then Some 0 else tileOf g sz p)"
  using foldl_write_row[OF assms, of py 0 "[min x1 x2 .. max x1 x2]" p]
  by (simp add: createHorizontalTunnel_def)

lemma verticalTunnel_tiles:
  assumes "length g = nat (sz * sz)"
  shows "length (createVerticalTunnel y1 y2 px g sz) = nat (sz * sz)
       \<and> tileOf (createVerticalTunnel y1 y2 px g sz) sz p =
           (if inGrid sz p \<and> fst p = px \<and> min y1 y2 \<le> snd p \<and> snd p \<le> max y1 y2
            then Some 0 else tileOf g sz p)"
  using foldl_write_col[OF assms, of px 0 "[min y1 y2 .. max y1 y2]" p]
  by (simp add: createVerticalTunnel_def)

subsection \<open>Walking on tiles\<close>

definition adjacent :: "int \<times> int \<Rightarrow> int \<times> int \<Rightarrow> bool" where
  "adjacent p q = (\<bar>fst p - fst q\<bar> + \<bar>snd p - snd q\<bar> = 1)"

text \<open>A tile the player can stand on: floor or portal.\<close>

definition walkable :: "nat list \<Rightarrow> int \<Rightarrow> int \<times> int \<Rightarrow> bool" where
  "walkable mapData sz p = (tileOf mapData sz p = Some 0 \<or> tileOf mapData sz p = Some 9)"

text \<open>One 4-connected move onto a walkable tile, and any number of them.\<close>

definition move :: "nat list \<Rightarrow> int \<Rightarrow> int \<times> int \<Rightarrow> int \<times> int \<Rightarrow> bool" where
  "move mapData sz p q = (adjacent p q \<and> walkable mapData sz q)"

definition reachable :: "nat list \<Rightarrow> int \<Rightarrow> int \<times> int \<Rightarrow> int \<times> int \<Rightarrow> bool" where
  "reachable mapData sz p q = (move mapData sz)\<^sup>*\<^sup>* p q"

text \<open>The same on a set of tiles: a move inside \<open>S\<close>, and \<open>S\<close> connected by such moves.\<close>

definition moveIn :: "(int \<times> int) set \<Rightarrow> int \<times> int \<Rightarrow> int \<times> int \<Rightarrow> bool" where
  "moveIn S p q = (adjacent p q \<and> q \<in> S)"

definition tilesConnected :: "(int \<times> int) set \<Rightarrow> bool" where
  "tilesConnected S = (\<forall>p\<in>S. \<forall>q\<in>S. (moveIn S)\<^sup>*\<^sup>* p q)"

lemma moveIn_mono:
  assumes "S \<subseteq> T" "(moveIn S)\<^sup>*\<^sup>* p q"
  shows "(moveIn T)\<^sup>*\<^sup>* p q"
  using assms(2)
proof (induction rule: rtranclp_induct)
  case base
  then show ?case by simp
next
  case (step y z)
  from step.hyps(2) assms(1) have "moveIn T y z" by (auto simp add: moveIn_def)
  with step.IH show ?case by (rule rtranclp.rtrancl_into_rtrancl)
qed

lemma moveIn_stays:
  assumes "(moveIn S)\<^sup>*\<^sup>* p q" "p \<in> S"
  shows "q \<in> S"
  using assms by (induction rule: rtranclp_induct) (simp_all add: moveIn_def)

lemma adjacent_sym: "adjacent p q = adjacent q p"
  by (simp add: adjacent_def abs_minus_commute)

lemma moveIn_reverse:
  assumes "(moveIn S)\<^sup>*\<^sup>* p q" "p \<in> S"
  shows "(moveIn S)\<^sup>*\<^sup>* q p"
  using assms
proof (induction rule: rtranclp_induct)
  case base
  then show ?case by simp
next
  case (step y z)
  from step have "y \<in> S" using moveIn_stays by blast
  with step.hyps(2) have "moveIn S z y" by (simp add: moveIn_def adjacent_sym)
  then have "(moveIn S)\<^sup>*\<^sup>* z y" by simp
  also have "(moveIn S)\<^sup>*\<^sup>* y p" using step by simp
  finally show ?case .
qed

lemma connected_union:
  assumes "tilesConnected S" "tilesConnected T" "S \<inter> T \<noteq> {}"
  shows "tilesConnected (S \<union> T)"
proof -
  from assms(3) obtain c where c: "c \<in> S" "c \<in> T" by auto
  have toC: "(moveIn (S \<union> T))\<^sup>*\<^sup>* p c" if "p \<in> S \<union> T" for p
  proof (cases "p \<in> S")
    case True
    with assms(1) c have "(moveIn S)\<^sup>*\<^sup>* p c" by (simp add: tilesConnected_def)
    then show ?thesis by (rule moveIn_mono[rotated]) simp
  next
    case False
    with that have "p \<in> T" by simp
    with assms(2) c have "(moveIn T)\<^sup>*\<^sup>* p c" by (simp add: tilesConnected_def)
    then show ?thesis by (rule moveIn_mono[rotated]) simp
  qed
  show ?thesis unfolding tilesConnected_def
  proof (intro ballI)
    fix p q assume p: "p \<in> S \<union> T" and q: "q \<in> S \<union> T"
    have "(moveIn (S \<union> T))\<^sup>*\<^sup>* q c" using toC[OF q] .
    then have "(moveIn (S \<union> T))\<^sup>*\<^sup>* c q" using moveIn_reverse q by blast
    with toC[OF p] show "(moveIn (S \<union> T))\<^sup>*\<^sup>* p q" by simp
  qed
qed

definition hseg :: "int \<Rightarrow> int \<Rightarrow> int \<Rightarrow> (int \<times> int) set" where
  "hseg py a b = {p. snd p = py \<and> a \<le> fst p \<and> fst p \<le> b}"

definition vseg :: "int \<Rightarrow> int \<Rightarrow> int \<Rightarrow> (int \<times> int) set" where
  "vseg px a b = {p. fst p = px \<and> a \<le> snd p \<and> snd p \<le> b}"

lemma hseg_walk:
  assumes "a \<le> x1" "x2 \<le> b" "hseg py a b \<subseteq> S"
  shows "nat (x2 - x1) = n \<Longrightarrow> x1 \<le> x2 \<Longrightarrow> (moveIn S)\<^sup>*\<^sup>* (x1, py) (x2, py)"
  using assms(2)
proof (induction n arbitrary: x2)
  case 0
  then have "x2 = x1" by simp
  then show ?case by simp
next
  case (Suc n)
  then have lt: "x1 \<le> x2 - 1" "nat (x2 - 1 - x1) = n" "x2 - 1 \<le> b" by simp_all
  from Suc.IH[OF lt(2) lt(1) lt(3)] have "(moveIn S)\<^sup>*\<^sup>* (x1, py) (x2 - 1, py)" .
  moreover have "(x2, py) \<in> hseg py a b" using Suc.prems assms(1) by (simp add: hseg_def)
  then have "moveIn S (x2 - 1, py) (x2, py)"
    using assms(3) by (auto simp add: moveIn_def adjacent_def)
  ultimately show ?case by (rule rtranclp.rtrancl_into_rtrancl)
qed

lemma vseg_walk:
  assumes "a \<le> y1" "y2 \<le> b" "vseg px a b \<subseteq> S"
  shows "nat (y2 - y1) = n \<Longrightarrow> y1 \<le> y2 \<Longrightarrow> (moveIn S)\<^sup>*\<^sup>* (px, y1) (px, y2)"
  using assms(2)
proof (induction n arbitrary: y2)
  case 0
  then have "y2 = y1" by simp
  then show ?case by simp
next
  case (Suc n)
  then have lt: "y1 \<le> y2 - 1" "nat (y2 - 1 - y1) = n" "y2 - 1 \<le> b" by simp_all
  from Suc.IH[OF lt(2) lt(1) lt(3)] have "(moveIn S)\<^sup>*\<^sup>* (px, y1) (px, y2 - 1)" .
  moreover have "(px, y2) \<in> vseg px a b" using Suc.prems assms(1) by (simp add: vseg_def)
  then have "moveIn S (px, y2 - 1) (px, y2)"
    using assms(3) by (auto simp add: moveIn_def adjacent_def)
  ultimately show ?case by (rule rtranclp.rtrancl_into_rtrancl)
qed

lemma hseg_walk_any:
  assumes "a \<le> x1" "x1 \<le> b" "a \<le> x2" "x2 \<le> b" "hseg py a b \<subseteq> S"
  shows "(moveIn S)\<^sup>*\<^sup>* (x1, py) (x2, py)"
proof (cases "x1 \<le> x2")
  case True
  show ?thesis by (rule hseg_walk[OF assms(1) assms(4) assms(5) refl True])
next
  case False
  then have "x2 \<le> x1" by simp
  then have "(moveIn S)\<^sup>*\<^sup>* (x2, py) (x1, py)"
    by (rule hseg_walk[OF assms(3) assms(2) assms(5) refl])
  moreover have "(x2, py) \<in> S" using assms by (auto simp add: hseg_def)
  ultimately show ?thesis by (rule moveIn_reverse)
qed

lemma vseg_walk_any:
  assumes "a \<le> y1" "y1 \<le> b" "a \<le> y2" "y2 \<le> b" "vseg px a b \<subseteq> S"
  shows "(moveIn S)\<^sup>*\<^sup>* (px, y1) (px, y2)"
proof (cases "y1 \<le> y2")
  case True
  show ?thesis by (rule vseg_walk[OF assms(1) assms(4) assms(5) refl True])
next
  case False
  then have "y2 \<le> y1" by simp
  then have "(moveIn S)\<^sup>*\<^sup>* (px, y2) (px, y1)"
    by (rule vseg_walk[OF assms(3) assms(2) assms(5) refl])
  moreover have "(px, y2) \<in> S" using assms by (auto simp add: vseg_def)
  ultimately show ?thesis by (rule moveIn_reverse)
qed

lemma connected_hseg: "tilesConnected (hseg py a b)"
  unfolding tilesConnected_def
proof (intro ballI)
  fix p q assume "p \<in> hseg py a b" "q \<in> hseg py a b"
  then have "a \<le> fst p" "fst p \<le> b" "a \<le> fst q" "fst q \<le> b" "p = (fst p, py)" "q = (fst q, py)"
    by (auto simp add: hseg_def prod_eq_iff)
  then show "(moveIn (hseg py a b))\<^sup>*\<^sup>* p q"
    using hseg_walk_any[of a "fst p" b "fst q" py "hseg py a b"] by simp
qed

lemma connected_vseg: "tilesConnected (vseg px a b)"
  unfolding tilesConnected_def
proof (intro ballI)
  fix p q assume "p \<in> vseg px a b" "q \<in> vseg px a b"
  then have "a \<le> snd p" "snd p \<le> b" "a \<le> snd q" "snd q \<le> b" "p = (px, snd p)" "q = (px, snd q)"
    by (auto simp add: vseg_def prod_eq_iff)
  then show "(moveIn (vseg px a b))\<^sup>*\<^sup>* p q"
    using vseg_walk_any[of a "snd p" b "snd q" px "vseg px a b"] by simp
qed

lemma connected_roomTiles: "tilesConnected (roomTiles rm)"
  unfolding tilesConnected_def
proof (intro ballI)
  fix p q assume p: "p \<in> roomTiles rm" and q: "q \<in> roomTiles rm"
  let ?S = "roomTiles rm"
  let ?a = "r_x rm" and ?b = "r_x rm + r_width rm - 1"
  let ?c = "r_y rm" and ?d = "r_y rm + r_height rm - 1"
  from p q have b: "?a \<le> fst p" "fst p \<le> ?b" "?c \<le> snd p" "snd p \<le> ?d"
    "?a \<le> fst q" "fst q \<le> ?b" "?c \<le> snd q" "snd q \<le> ?d"
    by (auto simp add: roomTiles_def)
  have h: "hseg (snd p) ?a ?b \<subseteq> ?S" using b by (auto simp add: hseg_def roomTiles_def)
  have v: "vseg (fst q) ?c ?d \<subseteq> ?S" using b by (auto simp add: vseg_def roomTiles_def)
  have "(moveIn ?S)\<^sup>*\<^sup>* (fst p, snd p) (fst q, snd p)"
    using hseg_walk_any[OF b(1) b(2) b(5) b(6) h] .
  also have "(moveIn ?S)\<^sup>*\<^sup>* (fst q, snd p) (fst q, snd q)"
    using vseg_walk_any[OF b(3) b(4) b(7) b(8) v] .
  finally show "(moveIn ?S)\<^sup>*\<^sup>* p q" by simp
qed

subsection \<open>The partition tree stays inside the map\<close>

lemma floor_random_pos:
  assumes "0 \<le> r" "r < 1" "0 < k"
  shows "0 \<le> \<lfloor>r * real_of_int k\<rfloor> \<and> \<lfloor>r * real_of_int k\<rfloor> < k"
proof -
  have "0 \<le> r * real_of_int k" using assms by simp
  moreover have "r * real_of_int k < real_of_int k" using assms by simp
  ultimately show ?thesis by (simp add: floor_less_iff)
qed

lemma floor_random_any:
  assumes "0 \<le> r" "r < 1"
  shows "min 0 k \<le> \<lfloor>r * real_of_int k\<rfloor> \<and> \<lfloor>r * real_of_int k\<rfloor> \<le> max 0 k"
proof (cases "0 \<le> k")
  case True
  then have "0 \<le> r * real_of_int k" "r * real_of_int k \<le> real_of_int k"
    using assms by (simp_all add: mult_left_le_one_le)
  then have "0 \<le> \<lfloor>r * real_of_int k\<rfloor> \<and> \<lfloor>r * real_of_int k\<rfloor> \<le> k"
    by (simp add: floor_le_iff le_floor_iff)
  with True show ?thesis by linarith
next
  case False
  then have k: "real_of_int k < 0" by simp
  have "r * real_of_int k \<le> 0" using assms k by (simp add: mult_nonneg_nonpos)
  moreover have "real_of_int k \<le> r * real_of_int k"
    using assms k mult_right_mono_neg[of r 1 "real_of_int k"] by simp
  ultimately have "k \<le> \<lfloor>r * real_of_int k\<rfloor> \<and> \<lfloor>r * real_of_int k\<rfloor> \<le> 0"
    by (simp add: le_floor_iff floor_le_iff)
  with False show ?thesis by linarith
qed

lemma floor_half: "\<lfloor>real_of_int a + real_of_int b / 2\<rfloor> = a + b div 2"
proof -
  have "\<lfloor>real_of_int b / 2\<rfloor> = b div 2"
    using floor_divide_of_int_eq[of b 2, where ?'a = real] by simp
  then show ?thesis by simp
qed

text \<open>
  A tree as the splitting loop leaves it: every node lies inside the map and starts at a
  column and a row of the map, has both children or none, and has no room yet.
\<close>

fun treeOk :: "int \<Rightarrow> BSPNode \<Rightarrow> bool" where
  "treeOk sz (BSPNode px py w h lc rc rm) =
     (0 \<le> px \<and> 0 \<le> py \<and> 0 \<le> w \<and> 0 \<le> h \<and> px + w \<le> sz \<and> py + h \<le> sz
      \<and> px < sz \<and> py < sz \<and> rm = None
      \<and> (case lc of
            None \<Rightarrow> rc = None
          | Some l \<Rightarrow> (case rc of None \<Rightarrow> False | Some r \<Rightarrow> treeOk sz l \<and> treeOk sz r)))"

text \<open>Every node is at least \<open>d\<close> wide and high.\<close>

fun nodesAtLeast :: "int \<Rightarrow> BSPNode \<Rightarrow> bool" where
  "nodesAtLeast d (BSPNode px py w h lc rc rm) =
     (d \<le> w \<and> d \<le> h
      \<and> (case lc of None \<Rightarrow> True | Some l \<Rightarrow> nodesAtLeast d l)
      \<and> (case rc of None \<Rightarrow> True | Some r \<Rightarrow> nodesAtLeast d r))"

text \<open>The position \<^verbatim>\<open>split\<close> chooses in a node of extent \<open>dm\<close>.\<close>

definition splitPosition :: "(nat \<Rightarrow> real) \<Rightarrow> nat \<Rightarrow> int \<Rightarrow> int \<Rightarrow> int" where
  "splitPosition rnd n m dm = \<lfloor>rnd (n + 1) * real_of_int (dm - m - m)\<rfloor> + m"

lemma split_children:
  assumes "validRandom rnd" "\<not> dm - m \<le> m"
  shows "m \<le> splitPosition rnd n m dm \<and> splitPosition rnd n m dm < dm - m"
proof -
  from assms(2) have k: "0 < dm - m - m" by simp
  from assms(1) have r: "0 \<le> rnd (n + 1)" "rnd (n + 1) < 1" by (simp_all add: validRandom_def)
  from floor_random_pos[OF r k] show ?thesis unfolding splitPosition_def by linarith
qed

lemma split_cases:
  "split rnd n m (BSPNode px py w h None None rm) =
     (if rnd n > 1/2 then
        (if h - m \<le> m then (False, BSPNode px py w h None None rm, n + 1)
         else (True,
               BSPNode px py w h
                 (Some (newNode px py w (splitPosition rnd n m h)))
                 (Some (newNode px (py + splitPosition rnd n m h) w (h - splitPosition rnd n m h)))
                 rm,
               n + 2))
      else
        (if w - m \<le> m then (False, BSPNode px py w h None None rm, n + 1)
         else (True,
               BSPNode px py w h
                 (Some (newNode px py (splitPosition rnd n m w) h))
                 (Some (newNode (px + splitPosition rnd n m w) py (w - splitPosition rnd n m w) h))
                 rm,
               n + 2)))"
  by (simp add: split_def Let_def splitPosition_def)

lemma split_unchanged:
  "lc \<noteq> None \<or> rc \<noteq> None \<Longrightarrow>
     split rnd n m (BSPNode px py w h lc rc rm) = (False, BSPNode px py w h lc rc rm, n)"
  by (simp add: split_def)

lemma split_treeOk:
  assumes "treeOk sz node" "validRandom rnd" "0 \<le> m"
  shows "treeOk sz (fst (snd (split rnd n m node)))"
proof (cases node)
  case (BSPNode px py w h lc rc rm)
  show ?thesis
  proof (cases "lc \<noteq> None \<or> rc \<noteq> None")
    case True
    then show ?thesis using assms(1) BSPNode by (simp add: split_unchanged)
  next
    case False
    then have leaf: "lc = None" "rc = None" by simp_all
    from assms(1) have ok: "0 \<le> px" "0 \<le> py" "0 \<le> w" "0 \<le> h" "px + w \<le> sz" "py + h \<le> sz"
      "px < sz" "py < sz" "rm = None"
      by (simp_all add: BSPNode)
    show ?thesis
      using split_children[OF assms(2), of h m n] split_children[OF assms(2), of w m n] ok assms(3)
      by (auto simp add: BSPNode leaf split_cases newNode_def)
  qed
qed

lemma split_nodesAtLeast:
  assumes "nodesAtLeast d node" "validRandom rnd" "d \<le> m"
  shows "nodesAtLeast d (fst (snd (split rnd n m node)))"
proof (cases node)
  case (BSPNode px py w h lc rc rm)
  show ?thesis
  proof (cases "lc \<noteq> None \<or> rc \<noteq> None")
    case True
    then show ?thesis using assms(1) BSPNode by (simp add: split_unchanged)
  next
    case False
    then have leaf: "lc = None" "rc = None" by simp_all
    from assms(1) have ok: "d \<le> w" "d \<le> h" by (simp_all add: BSPNode)
    show ?thesis
      using split_children[OF assms(2), of h m n] split_children[OF assms(2), of w m n] ok assms(3)
      by (auto simp add: BSPNode leaf split_cases newNode_def)
  qed
qed

lemma splitAt_treeOk:
  "validRandom rnd \<Longrightarrow> 0 \<le> m \<Longrightarrow> treeOk sz node
     \<Longrightarrow> treeOk sz (fst (snd (splitAt rnd n m p node)))"
proof (induction rnd n m p node rule: splitAt.induct)
  case (1 rnd n m node)
  then show ?case using split_treeOk by simp
next
  case (2 rnd n m p px py w h lc rc rm)
  then show ?case by (auto split: option.splits prod.splits)
next
  case (3 rnd n m p px py w h lc rc rm)
  then show ?case by (auto split: option.splits prod.splits)
qed

lemma splitAt_nodesAtLeast:
  "validRandom rnd \<Longrightarrow> d \<le> m \<Longrightarrow> nodesAtLeast d node
     \<Longrightarrow> nodesAtLeast d (fst (snd (splitAt rnd n m p node)))"
proof (induction rnd n m p node rule: splitAt.induct)
  case (1 rnd n m node)
  then show ?case using split_nodesAtLeast by simp
next
  case (2 rnd n m p px py w h lc rc rm)
  then show ?case by (auto split: option.splits prod.splits)
next
  case (3 rnd n m p px py w h lc rc rm)
  then show ?case by (auto split: option.splits prod.splits)
qed

lemma splitRounds_invariant:
  assumes step: "\<And>n p t. P t \<Longrightarrow> P (fst (snd (splitAt rnd n m p t)))"
  shows "P (fst st) \<Longrightarrow> P (fst (splitRounds k rnd m st))"
proof (induction k arbitrary: st)
  case 0
  then show ?case by simp
next
  case (Suc k)
  have c: "P (fst (splitContainer rnd m s p))" if "P (fst s)" for s p
    using that step[of "fst s" "snd (snd s)" p]
    by (auto simp add: splitContainer_def split: prod.splits)
  have f: "P (fst (foldl (splitContainer rnd m) s ps))" if "P (fst s)" for s ps
    using that by (induction ps arbitrary: s) (simp_all add: c)
  have "P (fst (splitRound rnd m st))" using Suc.prems f by (simp add: splitRound_def)
  then show ?case using Suc.IH by simp
qed

subsection \<open>The rooms\<close>

definition centre :: "Room \<Rightarrow> int \<times> int" where
  "centre rm = (r_centerX rm, r_centerY rm)"

text \<open>
  A room as \<^verbatim>\<open>createRoom\<close> makes it: its tiles and its centre lie inside the map, and the
  centre is one of its tiles unless the room has no tile at all.
\<close>

definition goodRoom :: "int \<Rightarrow> Room \<Rightarrow> bool" where
  "goodRoom sz rm =
     (roomTiles rm \<subseteq> {p. inGrid sz p} \<and> inGrid sz (centre rm)
      \<and> (roomTiles rm \<noteq> {} \<longrightarrow> centre rm \<in> roomTiles rm))"

text \<open>A tree after \<^verbatim>\<open>createRoom\<close>: a good room in every leaf, and in no other node.\<close>

fun roomsOk :: "int \<Rightarrow> BSPNode \<Rightarrow> bool" where
  "roomsOk sz (BSPNode px py w h lc rc rm) =
     (case lc of
        None \<Rightarrow> rc = None \<and> (case rm of None \<Rightarrow> False | Some r \<Rightarrow> goodRoom sz r)
      | Some l \<Rightarrow> (case rc of None \<Rightarrow> False | Some r \<Rightarrow> rm = None \<and> roomsOk sz l \<and> roomsOk sz r))"

text \<open>The width or height \<^verbatim>\<open>createRoom\<close> draws for a leaf of extent \<open>dm\<close>, and the offset.\<close>

definition roomExtent :: "(nat \<Rightarrow> real) \<Rightarrow> nat \<Rightarrow> int \<Rightarrow> int \<Rightarrow> int \<Rightarrow> int" where
  "roomExtent rnd n minRoomSize maxRoomSize dm =
     min (\<lfloor>rnd n * real_of_int (maxRoomSize - minRoomSize)\<rfloor> + minRoomSize) (dm - 2)"

definition roomOffset :: "(nat \<Rightarrow> real) \<Rightarrow> nat \<Rightarrow> int \<Rightarrow> int \<Rightarrow> int" where
  "roomOffset rnd n dm ext = \<lfloor>rnd n * real_of_int (dm - ext - 1)\<rfloor> + 1"

lemma createRoom_leaf:
  "createRoom rnd n minRoomSize maxRoomSize (BSPNode px py w h None None rm) =
     (BSPNode px py w h None None
        (Some (newRoom
           (px + roomOffset rnd (n + 2) w (roomExtent rnd n minRoomSize maxRoomSize w))
           (py + roomOffset rnd (n + 3) h (roomExtent rnd (n + 1) minRoomSize maxRoomSize h))
           (roomExtent rnd n minRoomSize maxRoomSize w)
           (roomExtent rnd (n + 1) minRoomSize maxRoomSize h))),
      n + 4)"
  by (simp add: Let_def roomExtent_def roomOffset_def add.assoc)

lemma roomExtent_bounds:
  assumes "validRandom rnd" "0 \<le> minRoomSize" "0 \<le> maxRoomSize"
  shows "roomExtent rnd n minRoomSize maxRoomSize dm \<le> dm - 2
       \<and> min (min minRoomSize maxRoomSize) (dm - 2) \<le> roomExtent rnd n minRoomSize maxRoomSize dm"
proof -
  from assms(1) have r: "0 \<le> rnd n" "rnd n < 1" by (simp_all add: validRandom_def)
  from floor_random_any[OF r, of "maxRoomSize - minRoomSize"]
  show ?thesis unfolding roomExtent_def by linarith
qed

lemma roomOffset_bounds:
  assumes "validRandom rnd" "ext \<le> dm - 2"
  shows "1 \<le> roomOffset rnd n dm ext \<and> roomOffset rnd n dm ext \<le> dm - ext - 1"
proof -
  from assms(1) have r: "0 \<le> rnd n" "rnd n < 1" by (simp_all add: validRandom_def)
  from assms(2) have k: "0 < dm - ext - 1" by simp
  from floor_random_pos[OF r k] show ?thesis unfolding roomOffset_def by linarith
qed

lemma floor_half_only: "\<lfloor>real_of_int b / 2\<rfloor> = b div 2"
  using floor_half[of 0 b] by simp

text \<open>One axis of a room in a node that starts at \<open>p\<close> and is \<open>dm\<close> long.\<close>

lemma room_axis:
  fixes p dm sz e off :: int
  assumes "0 \<le> p" "0 \<le> dm" "p + dm \<le> sz" "p < sz"
    and "e \<le> dm - 2" "min 0 (dm - 2) \<le> e"
    and "1 \<le> off" "off \<le> dm - e - 1"
  shows "(\<forall>t. p + off \<le> t \<and> t < p + off + e \<longrightarrow> 0 \<le> t \<and> t < sz)
       \<and> 0 \<le> p + off + e div 2 \<and> p + off + e div 2 < sz
       \<and> (1 \<le> e \<longrightarrow> p + off \<le> p + off + e div 2 \<and> p + off + e div 2 < p + off + e)"
proof -
  consider "1 \<le> e" | "e = 0" | "e = - 1" | "e = - 2" | "e < - 2" by linarith
  then show ?thesis
  proof cases
    case 1
    then have "0 \<le> e div 2" "e div 2 < e" by simp_all
    with assms 1 show ?thesis by auto
  next
    case 2
    with assms show ?thesis by auto
  next
    case 3
    with assms have "dm = 1" "off = 1" by simp_all
    with assms 3 show ?thesis by auto
  next
    case 4
    with assms have "dm = 0" "off = 1" by simp_all
    with assms 4 show ?thesis by auto
  next
    case 5
    with assms show ?thesis by simp
  qed
qed

lemma createRoom_leaf_good:
  assumes v: "validRandom rnd" and m: "0 \<le> minRoomSize" "0 \<le> maxRoomSize"
    and ok: "0 \<le> px" "0 \<le> py" "0 \<le> w" "0 \<le> h" "px + w \<le> sz" "py + h \<le> sz" "px < sz" "py < sz"
  shows "goodRoom sz (newRoom
           (px + roomOffset rnd n2 w (roomExtent rnd n0 minRoomSize maxRoomSize w))
           (py + roomOffset rnd n3 h (roomExtent rnd n1 minRoomSize maxRoomSize h))
           (roomExtent rnd n0 minRoomSize maxRoomSize w)
           (roomExtent rnd n1 minRoomSize maxRoomSize h))"
proof -
  define ew where "ew = roomExtent rnd n0 minRoomSize maxRoomSize w"
  define eh where "eh = roomExtent rnd n1 minRoomSize maxRoomSize h"
  define ox where "ox = roomOffset rnd n2 w ew"
  define oy where "oy = roomOffset rnd n3 h eh"
  from roomExtent_bounds[OF v m, of n0 w] m
  have ew: "ew \<le> w - 2" "min 0 (w - 2) \<le> ew" unfolding ew_def by linarith+
  from roomExtent_bounds[OF v m, of n1 h] m
  have eh: "eh \<le> h - 2" "min 0 (h - 2) \<le> eh" unfolding eh_def by linarith+
  from roomOffset_bounds[OF v ew(1), of n2] have ox: "1 \<le> ox" "ox \<le> w - ew - 1"
    unfolding ox_def by simp_all
  from roomOffset_bounds[OF v eh(1), of n3] have oy: "1 \<le> oy" "oy \<le> h - eh - 1"
    unfolding oy_def by simp_all
  note ax = room_axis[OF ok(1) ok(3) ok(5) ok(7) ew ox]
  note ay = room_axis[OF ok(2) ok(4) ok(6) ok(8) eh oy]
  have t: "roomTiles (newRoom (px + ox) (py + oy) ew eh) \<subseteq> {p. inGrid sz p}"
    using ax ay by (auto simp add: roomTiles_def newRoom_def inGrid_def)
  have c: "inGrid sz (centre (newRoom (px + ox) (py + oy) ew eh))"
    using ax ay by (simp add: centre_def newRoom_def inGrid_def floor_half_only)
  have i: "centre (newRoom (px + ox) (py + oy) ew eh) \<in> roomTiles (newRoom (px + ox) (py + oy) ew eh)"
    if "roomTiles (newRoom (px + ox) (py + oy) ew eh) \<noteq> {}"
  proof -
    from that have "1 \<le> ew" "1 \<le> eh" by (auto simp add: roomTiles_def newRoom_def)
    with ax ay show ?thesis by (simp add: centre_def newRoom_def roomTiles_def floor_half_only)
  qed
  from t c i show ?thesis
    unfolding goodRoom_def ew_def[symmetric] eh_def[symmetric] ox_def[symmetric] oy_def[symmetric]
    by blast
qed

lemma createRoom_roomsOk:
  "validRandom rnd \<Longrightarrow> 0 \<le> minRoomSize \<Longrightarrow> 0 \<le> maxRoomSize \<Longrightarrow> treeOk sz node
     \<Longrightarrow> roomsOk sz (fst (createRoom rnd n minRoomSize maxRoomSize node))"
proof (induction rnd n minRoomSize maxRoomSize node rule: createRoom.induct)
  case (1 rnd n minRoomSize maxRoomSize px py w h lc rc rm)
  show ?case
  proof (cases lc)
    case None
    with "1.prems"(4) have leaf: "lc = None" "rc = None" by simp_all
    from "1.prems"(4) have ok: "0 \<le> px" "0 \<le> py" "0 \<le> w" "0 \<le> h" "px + w \<le> sz" "py + h \<le> sz"
      "px < sz" "py < sz" by simp_all
    show ?thesis
      unfolding leaf createRoom_leaf
      using createRoom_leaf_good[OF "1.prems"(1,2,3) ok] by simp
  next
    case (Some l)
    with "1.prems"(4) obtain r where r: "rc = Some r" and okl: "treeOk sz l" and okr: "treeOk sz r"
      and rm: "rm = None"
      by (auto split: option.splits)
    obtain l' n1 where cl: "createRoom rnd n minRoomSize maxRoomSize l = (l', n1)" by fastforce
    obtain r' n2 where cr: "createRoom rnd n1 minRoomSize maxRoomSize r = (r', n2)" by fastforce
    have il: "roomsOk sz l'"
      using "1.IH"(1)[of l, OF _ Some "1.prems"(1,2,3) okl] Some cl by simp
    have ir: "roomsOk sz r'"
      using "1.IH"(2)[of "(Some l', n1)" "Some l'" n1 r, OF _ _ _ r "1.prems"(1,2,3) okr] Some cl cr
      by simp
    show ?thesis using Some r rm cl cr il ir by simp
  qed
qed

subsection \<open>Corridors connect the rooms\<close>

definition roomArea :: "BSPNode \<Rightarrow> (int \<times> int) set" where
  "roomArea t = (\<Union>rm \<in> set (getAllRooms t). roomTiles rm)"

definition centres :: "BSPNode \<Rightarrow> (int \<times> int) set" where
  "centres t = centre ` set (getAllRooms t)"

lemma getAllRooms_leaf:
  "getAllRooms (BSPNode px py w h None None (Some rm)) = [rm]"
  by simp

lemma getAllRooms_inner:
  "getAllRooms (BSPNode px py w h (Some l) (Some r) None) = getAllRooms l @ getAllRooms r"
  by simp

lemma roomsOk_cases:
  assumes "roomsOk sz t"
  obtains (leaf) px py w h rm where "t = BSPNode px py w h None None (Some rm)" "goodRoom sz rm"
  | (inner) px py w h l r where "t = BSPNode px py w h (Some l) (Some r) None"
      "roomsOk sz l" "roomsOk sz r"
proof (cases t)
  case (BSPNode px py w h lc rc rm)
  with assms show ?thesis
    by (cases lc; cases rc; cases rm) (auto intro: leaf inner)
qed

lemma roomsOk_good:
  "roomsOk sz t \<Longrightarrow> rm \<in> set (getAllRooms t) \<Longrightarrow> goodRoom sz rm"
proof (induction sz t rule: roomsOk.induct)
  case (1 sz px py w h lc rc rm')
  then show ?case by (auto split: option.splits)
qed

lemma getAllRooms_nonempty: "roomsOk sz t \<Longrightarrow> getAllRooms t \<noteq> []"
proof (induction sz t rule: roomsOk.induct)
  case (1 sz px py w h lc rc rm')
  then show ?case by (auto split: option.splits)
qed

lemma getRoom_member:
  "roomsOk sz t \<Longrightarrow> \<exists>rm. fst (getRoom rnd n t) = Some rm \<and> rm \<in> set (getAllRooms t)"
proof (induction rnd n t rule: getRoom.induct)
  case (1 rnd n px py w h lc rc rm)
  from "1.prems" show ?case
  proof (cases rule: roomsOk_cases)
    case (leaf px' py' w' h' rm')
    then show ?thesis by simp
  next
    case (inner px' py' w' h' l r)
    then have e: "lc = Some l" "rc = Some r" "rm = None" by simp_all
    obtain a n1 where gl: "getRoom rnd n l = (a, n1)" by fastforce
    obtain b n2 where gr: "getRoom rnd n1 r = (b, n2)" by fastforce
    from "1.IH"(1)[OF e(3) e(1) inner(2)] gl
    obtain x where x: "a = Some x" "x \<in> set (getAllRooms l)" by auto
    have eq: "(a, n1) = (case lc of None \<Rightarrow> (None, n) | Some x \<Rightarrow> getRoom rnd n x)"
      using e gl by simp
    from "1.IH"(2)[of "(a, n1)" a n1 r, OF e(3) eq refl e(2) inner(3)] gr
    obtain y where y: "b = Some y" "y \<in> set (getAllRooms r)" by auto
    show ?thesis using e gl gr x y by simp
  qed
qed

lemma connected_single: "tilesConnected {c}"
  by (simp add: tilesConnected_def)

lemma leaf_connected:
  assumes "goodRoom sz rm"
  shows "tilesConnected (roomTiles rm \<union> {centre rm})"
proof (cases "roomTiles rm = {}")
  case True
  then show ?thesis by (simp add: connected_single)
next
  case False
  with assms have "roomTiles rm \<union> {centre rm} = roomTiles rm" by (auto simp add: goodRoom_def)
  then show ?thesis using connected_roomTiles by simp
qed

text \<open>The tiles of the corridor between two centres, for either order of the two tunnels.\<close>

definition corridorTiles :: "bool \<Rightarrow> int \<times> int \<Rightarrow> int \<times> int \<Rightarrow> (int \<times> int) set" where
  "corridorTiles horizontalFirst c1 c2 =
     (if horizontalFirst
      then hseg (snd c1) (min (fst c1) (fst c2)) (max (fst c1) (fst c2))
           \<union> vseg (fst c2) (min (snd c1) (snd c2)) (max (snd c1) (snd c2))
      else vseg (fst c1) (min (snd c1) (snd c2)) (max (snd c1) (snd c2))
           \<union> hseg (snd c2) (min (fst c1) (fst c2)) (max (fst c1) (fst c2)))"

lemma corridorTiles_props:
  assumes "inGrid sz c1" "inGrid sz c2"
  shows "corridorTiles b c1 c2 \<subseteq> {p. inGrid sz p}"
    and "c1 \<in> corridorTiles b c1 c2" and "c2 \<in> corridorTiles b c1 c2"
    and "tilesConnected (corridorTiles b c1 c2)"
proof -
  show "corridorTiles b c1 c2 \<subseteq> {p. inGrid sz p}"
    using assms by (auto simp add: corridorTiles_def hseg_def vseg_def inGrid_def)
  show "c1 \<in> corridorTiles b c1 c2" "c2 \<in> corridorTiles b c1 c2"
    by (auto simp add: corridorTiles_def hseg_def vseg_def)
  show "tilesConnected (corridorTiles b c1 c2)"
  proof (cases b)
    case True
    have "(fst c2, snd c1) \<in> hseg (snd c1) (min (fst c1) (fst c2)) (max (fst c1) (fst c2))
            \<inter> vseg (fst c2) (min (snd c1) (snd c2)) (max (snd c1) (snd c2))"
      by (simp add: hseg_def vseg_def)
    then have ne: "hseg (snd c1) (min (fst c1) (fst c2)) (max (fst c1) (fst c2))
            \<inter> vseg (fst c2) (min (snd c1) (snd c2)) (max (snd c1) (snd c2)) \<noteq> {}" by blast
    show ?thesis
      using True connected_union[OF connected_hseg connected_vseg ne] by (simp add: corridorTiles_def)
  next
    case False
    have "(fst c1, snd c2) \<in> vseg (fst c1) (min (snd c1) (snd c2)) (max (snd c1) (snd c2))
            \<inter> hseg (snd c2) (min (fst c1) (fst c2)) (max (fst c1) (fst c2))"
      by (simp add: hseg_def vseg_def)
    then have ne: "vseg (fst c1) (min (snd c1) (snd c2)) (max (snd c1) (snd c2))
            \<inter> hseg (snd c2) (min (fst c1) (fst c2)) (max (fst c1) (fst c2)) \<noteq> {}" by blast
    show ?thesis
      using False connected_union[OF connected_vseg connected_hseg ne] by (simp add: corridorTiles_def)
  qed
qed

lemma createCorridor_tiles:
  assumes "length g = nat (sz * sz)"
  shows "length (fst (createCorridor rnd n room1 room2 g sz)) = nat (sz * sz)
       \<and> tileOf (fst (createCorridor rnd n room1 room2 g sz)) sz p =
           (if inGrid sz p \<and> p \<in> corridorTiles (rnd n > 1/2) (centre room1) (centre room2)
            then Some 0 else tileOf g sz p)"
proof (cases "rnd n > 1/2")
  case True
  note h = horizontalTunnel_tiles[OF assms, of "r_centerX room1" "r_centerX room2" "r_centerY room1"]
  from h have l: "length (createHorizontalTunnel (r_centerX room1) (r_centerX room2) (r_centerY room1) g sz)
      = nat (sz * sz)" by simp
  note v = verticalTunnel_tiles[OF l, of "r_centerY room1" "r_centerY room2" "r_centerX room2" p]
  show ?thesis using True h[of p] v
    by (auto simp add: createCorridor_def Let_def corridorTiles_def centre_def hseg_def vseg_def)
next
  case False
  note v = verticalTunnel_tiles[OF assms, of "r_centerY room1" "r_centerY room2" "r_centerX room1"]
  from v have l: "length (createVerticalTunnel (r_centerY room1) (r_centerY room2) (r_centerX room1) g sz)
      = nat (sz * sz)" by simp
  note h = horizontalTunnel_tiles[OF l, of "r_centerX room1" "r_centerX room2" "r_centerY room2" p]
  show ?thesis using False v[of p] h
    by (auto simp add: createCorridor_def Let_def corridorTiles_def centre_def hseg_def vseg_def)
qed

text \<open>
  What \<^verbatim>\<open>connectRooms\<close> does to a map on which the rooms of the subtree are carved: it
  turns a set \<open>K\<close> of tiles inside the map into floor and leaves every other tile as it
  was; the rooms of the subtree, \<open>K\<close> and the centres of the rooms form a connected set;
  and when the subtree has more than one room, every centre is a tile of a room or of
  \<open>K\<close>.
\<close>

definition connectResult :: "int \<Rightarrow> BSPNode \<Rightarrow> nat list \<Rightarrow> nat list \<Rightarrow> (int \<times> int) set \<Rightarrow> bool" where
  "connectResult sz t g g' K =
     (length g' = nat (sz * sz) \<and> K \<subseteq> {p. inGrid sz p}
      \<and> (\<forall>p. tileOf g' sz p = (if p \<in> K then Some 0 else tileOf g sz p))
      \<and> tilesConnected (roomArea t \<union> K \<union> centres t)
      \<and> (leftChild t \<noteq> None \<longrightarrow> centres t \<subseteq> roomArea t \<union> K))"

lemma connectResult_tile:
  "connectResult sz t g g' K \<Longrightarrow> tileOf g' sz p = (if p \<in> K then Some 0 else tileOf g sz p)"
  unfolding connectResult_def by blast

lemma connectRooms_inner:
  "connectRooms rnd n (BSPNode px py w h (Some l) (Some r) rm) g sz =
     (let (m1, n1) = connectRooms rnd n l g sz;
          (m2, n2) = connectRooms rnd n1 r m1 sz;
          (leftRoom, n3) = getRoom rnd n2 l;
          (rightRoom, n4) = getRoom rnd n3 r
      in case leftRoom of
           None \<Rightarrow> (m2, n4)
         | Some lr \<Rightarrow>
             (case rightRoom of
                None \<Rightarrow> (m2, n4)
              | Some rr \<Rightarrow> createCorridor rnd n4 lr rr m2 sz))"
  by simp

lemma centres_subset_leafcase:
  assumes "roomsOk sz t" "rm \<in> set (getAllRooms t)" "leftChild t = None"
  shows "centres t = {centre rm}"
  using assms(1)
proof (cases rule: roomsOk_cases)
  case (leaf px py w h rm')
  with assms(2) show ?thesis by (simp add: centres_def)
next
  case (inner px py w h l r)
  with assms(3) show ?thesis by simp
qed

lemma connectRooms_connects:
  "roomsOk sz t \<Longrightarrow> length g = nat (sz * sz)
     \<Longrightarrow> \<forall>p \<in> roomArea t. tileOf g sz p = Some 0
     \<Longrightarrow> \<exists>K. connectResult sz t g (fst (connectRooms rnd n t g sz)) K"
proof (induction rnd n t g sz rule: connectRooms.induct)
  case (1 rnd n px py w h lc rc rm g sz)
  from "1.prems"(1) show ?case
  proof (cases rule: roomsOk_cases)
    case (leaf px' py' w' h' rm')
    then have e: "lc = None" "rc = None" "rm = Some rm'" by simp_all
    have "tilesConnected (roomTiles rm' \<union> {centre rm'})" using leaf_connected[OF leaf(2)] .
    then have "connectResult sz (BSPNode px py w h lc rc rm) g g {}"
      using "1.prems"(2) e by (simp add: connectResult_def roomArea_def centres_def)
    then show ?thesis using e by auto
  next
    case (inner px' py' w' h' l r)
    then have e: "lc = Some l" "rc = Some r" "rm = None" by simp_all
    let ?t = "BSPNode px py w h lc rc rm"
    have area: "roomArea ?t = roomArea l \<union> roomArea r"
      and cen: "centres ?t = centres l \<union> centres r"
      using e by (auto simp add: roomArea_def centres_def)
    obtain m1 n1 where c1: "connectRooms rnd n l g sz = (m1, n1)" by fastforce
    obtain m2 n2 where c2: "connectRooms rnd n1 r m1 sz = (m2, n2)" by fastforce
    obtain a n3 where g1: "getRoom rnd n2 l = (a, n3)" by fastforce
    obtain b n4 where g2: "getRoom rnd n3 r = (b, n4)" by fastforce
    from getRoom_member[OF inner(2), of rnd n2] g1
    obtain lr where lr: "a = Some lr" "lr \<in> set (getAllRooms l)" by auto
    from getRoom_member[OF inner(3), of rnd n3] g2
    obtain rr where rr: "b = Some rr" "rr \<in> set (getAllRooms r)" by auto
    have carved_l: "\<forall>p \<in> roomArea l. tileOf g sz p = Some 0"
      using "1.prems"(3) area by simp
    from "1.IH"(1)[OF e(1) e(2) inner(2) "1.prems"(2) carved_l] c1
    obtain K1 where K1: "connectResult sz l g m1 K1" by auto
    have len1: "length m1 = nat (sz * sz)" using K1 by (simp add: connectResult_def)
    have carved_r: "\<forall>p \<in> roomArea r. tileOf m1 sz p = Some 0"
    proof
      fix p assume "p \<in> roomArea r"
      then have "tileOf g sz p = Some 0" using "1.prems"(3) area by simp
      moreover have "tileOf m1 sz p = (if p \<in> K1 then Some 0 else tileOf g sz p)"
        using K1 by (rule connectResult_tile)
      ultimately show "tileOf m1 sz p = Some 0" by simp
    qed
    from "1.IH"(2)[OF e(1) e(2) c1[symmetric] refl inner(3) len1 carved_r] c2
    obtain K2 where K2: "connectResult sz r m1 m2 K2" by auto
    have len2: "length m2 = nat (sz * sz)" using K2 by (simp add: connectResult_def)
    let ?Kc = "corridorTiles (rnd n4 > 1/2) (centre lr) (centre rr)"
    let ?g3 = "fst (createCorridor rnd n4 lr rr m2 sz)"
    have res: "fst (connectRooms rnd n ?t g sz) = ?g3"
      using e c1 c2 g1 g2 lr rr by (simp add: connectRooms_inner)
    have gl: "goodRoom sz lr" using roomsOk_good[OF inner(2) lr(2)] .
    have gr: "goodRoom sz rr" using roomsOk_good[OF inner(3) rr(2)] .
    from gl gr have inl: "inGrid sz (centre lr)" and inr: "inGrid sz (centre rr)"
      by (simp_all add: goodRoom_def)
    note cp = corridorTiles_props[OF inl inr, of "rnd n4 > 1/2"]
    let ?K = "K1 \<union> K2 \<union> ?Kc"
    have len3: "length ?g3 = nat (sz * sz)" using createCorridor_tiles[OF len2] by simp
    have sub: "?K \<subseteq> {p. inGrid sz p}"
      using K1 K2 cp(1) by (auto simp add: connectResult_def)
    have tiles: "\<forall>p. tileOf ?g3 sz p = (if p \<in> ?K then Some 0 else tileOf g sz p)"
    proof
      fix p
      have "tileOf ?g3 sz p = (if inGrid sz p \<and> p \<in> ?Kc then Some 0 else tileOf m2 sz p)"
        using createCorridor_tiles[OF len2, of rnd n4 lr rr p] by simp
      moreover have "tileOf m2 sz p = (if p \<in> K2 then Some 0 else tileOf m1 sz p)"
        using K2 by (rule connectResult_tile)
      moreover have "tileOf m1 sz p = (if p \<in> K1 then Some 0 else tileOf g sz p)"
        using K1 by (rule connectResult_tile)
      ultimately show "tileOf ?g3 sz p = (if p \<in> ?K then Some 0 else tileOf g sz p)"
        using cp(1) by auto
    qed
    let ?A = "roomArea l \<union> K1 \<union> centres l"
    let ?B = "roomArea r \<union> K2 \<union> centres r"
    have cA: "tilesConnected ?A" using K1 by (simp add: connectResult_def)
    have cB: "tilesConnected ?B" using K2 by (simp add: connectResult_def)
    have "centre lr \<in> ?A \<inter> ?Kc" using lr(2) cp(2) by (auto simp add: centres_def)
    then have "?A \<inter> ?Kc \<noteq> {}" by blast
    from connected_union[OF cA cp(4) this] have cAK: "tilesConnected (?A \<union> ?Kc)" .
    have "centre rr \<in> (?A \<union> ?Kc) \<inter> ?B" using rr(2) cp(3) by (auto simp add: centres_def)
    then have "(?A \<union> ?Kc) \<inter> ?B \<noteq> {}" by blast
    from connected_union[OF cAK cB this] have "tilesConnected (?A \<union> ?Kc \<union> ?B)" .
    moreover have "?A \<union> ?Kc \<union> ?B = roomArea ?t \<union> ?K \<union> centres ?t"
      unfolding area cen by blast
    ultimately have conn: "tilesConnected (roomArea ?t \<union> ?K \<union> centres ?t)" by simp
    have cl: "centres l \<subseteq> roomArea l \<union> K1 \<union> ?Kc"
    proof (cases "leftChild l = None")
      case True
      from centres_subset_leafcase[OF inner(2) lr(2) True] cp(2) show ?thesis by simp
    next
      case False
      then show ?thesis using K1 by (auto simp add: connectResult_def)
    qed
    have cr: "centres r \<subseteq> roomArea r \<union> K2 \<union> ?Kc"
    proof (cases "leftChild r = None")
      case True
      from centres_subset_leafcase[OF inner(3) rr(2) True] cp(3) show ?thesis by simp
    next
      case False
      then show ?thesis using K2 by (auto simp add: connectResult_def)
    qed
    have csub: "centres ?t \<subseteq> roomArea ?t \<union> ?K"
      unfolding area cen using cl cr by blast
    have "connectResult sz ?t g ?g3 ?K"
      unfolding connectResult_def using len3 sub tiles conn csub by blast
    then show ?thesis unfolding res by blast
  qed
qed

subsection \<open>Carving writes floor only\<close>

lemma set_writeTile: "set (writeTile g sz px py v) \<subseteq> insert v (set g)"
  by (auto simp add: writeTile_def dest: set_update_subset_insert[THEN subsetD])

lemma set_foldl_write:
  assumes "\<And>m a. set (f m a) \<subseteq> insert v (set m)"
  shows "set (foldl f g xs) \<subseteq> insert v (set g)"
proof (induction xs arbitrary: g)
  case Nil
  then show ?case by auto
next
  case (Cons a xs)
  have "set (foldl f (f g a) xs) \<subseteq> insert v (set (f g a))" using Cons.IH .
  also have "\<dots> \<subseteq> insert v (set g)" using assms[of g a] by auto
  finally show ?case by simp
qed

lemma set_createHorizontalTunnel:
  "set (createHorizontalTunnel x1 x2 py g sz) \<subseteq> insert 0 (set g)"
  unfolding createHorizontalTunnel_def by (rule set_foldl_write) (rule set_writeTile)

lemma set_createVerticalTunnel:
  "set (createVerticalTunnel y1 y2 px g sz) \<subseteq> insert 0 (set g)"
  unfolding createVerticalTunnel_def by (rule set_foldl_write) (rule set_writeTile)

lemma set_carveRoom: "set (carveRoom g sz rm) \<subseteq> insert 0 (set g)"
  unfolding carveRoom_def
  by (rule set_foldl_write) (rule set_foldl_write, rule set_writeTile)

lemma set_createCorridor:
  "set (fst (createCorridor rnd n room1 room2 g sz)) \<subseteq> insert 0 (set g)"
proof -
  have a: "set (createVerticalTunnel y1 y2 px (createHorizontalTunnel x1 x2 py g sz) sz)
             \<subseteq> insert 0 (set g)" for y1 y2 px x1 x2 py
    using set_createVerticalTunnel[of y1 y2 px "createHorizontalTunnel x1 x2 py g sz" sz]
      set_createHorizontalTunnel[of x1 x2 py g sz] by auto
  have b: "set (createHorizontalTunnel x1 x2 py (createVerticalTunnel y1 y2 px g sz) sz)
             \<subseteq> insert 0 (set g)" for y1 y2 px x1 x2 py
    using set_createHorizontalTunnel[of x1 x2 py "createVerticalTunnel y1 y2 px g sz" sz]
      set_createVerticalTunnel[of y1 y2 px g sz] by auto
  show ?thesis using a b by (simp add: createCorridor_def Let_def)
qed

lemma set_connectRooms:
  "set (fst (connectRooms rnd n t g sz)) \<subseteq> insert 0 (set g)"
proof (induction rnd n t g sz rule: connectRooms.induct)
  case (1 rnd n px py w h lc rc rm g sz)
  show ?case
  proof (cases lc)
    case None
    then show ?thesis by auto
  next
    case l: (Some l)
    show ?thesis
    proof (cases rc)
      case None
      with l show ?thesis by auto
    next
      case r: (Some r)
      obtain m1 n1 where c1: "connectRooms rnd n l g sz = (m1, n1)" by fastforce
      obtain m2 n2 where c2: "connectRooms rnd n1 r m1 sz = (m2, n2)" by fastforce
      obtain a n3 where g1: "getRoom rnd n2 l = (a, n3)" by fastforce
      obtain b n4 where g2: "getRoom rnd n3 r = (b, n4)" by fastforce
      have s1: "set m1 \<subseteq> insert 0 (set g)" using "1.IH"(1)[OF l r] c1 by simp
      have s2: "set m2 \<subseteq> insert 0 (set m1)" using "1.IH"(2)[OF l r c1[symmetric] refl] c2 by simp
      have s3: "set (fst (createCorridor rnd n4 lr rr m2 sz)) \<subseteq> insert 0 (set m2)" for lr rr
        by (rule set_createCorridor)
      have "set (fst (connectRooms rnd n (BSPNode px py w h (Some l) (Some r) rm) g sz))
              \<subseteq> insert 0 (set m2)"
        using c1 c2 g1 g2 s3 by (auto simp add: connectRooms_inner split: option.splits)
      with s1 s2 show ?thesis unfolding l r by blast
    qed
  qed
qed

lemma one_portal:
  assumes "9 \<notin> set g" "i < length g"
  shows "length (filter (\<lambda>t. t = 9) (g[i := 9])) = 1"
proof -
  have u: "g[i := 9] = take i g @ 9 # drop (Suc i) g" using assms(2) by (rule upd_conv_take_nth_drop)
  have "filter (\<lambda>t. t = 9) (take i g) = []" "filter (\<lambda>t. t = 9) (drop (Suc i) g) = []"
    using assms(1) by (auto simp add: filter_empty_conv dest: in_set_takeD in_set_dropD)
  then show ?thesis unfolding u by simp
qed

subsection \<open>The generated map, tile by tile\<close>

lemma tileOf_walls:
  "tileOf (replicate (s * s) (Suc 0)) (int s) p = (if inGrid (int s) p then Some 1 else None)"
proof (cases "inGrid (int s) p")
  case True
  from index_range[OF True] have "nat (snd p * int s + fst p) < s * s"
    by (simp add: nat_less_iff)
  with True index_range[OF True] show ?thesis by (simp add: tileOf_def tileAt_def)
next
  case False
  then show ?thesis by (simp add: tileOf_def)
qed

lemma foldl_carveRoom:
  assumes "length g = nat (sz * sz)"
  shows "length (foldl (\<lambda>m rm. carveRoom m sz rm) g rs) = nat (sz * sz)
       \<and> tileOf (foldl (\<lambda>m rm. carveRoom m sz rm) g rs) sz p =
           (if inGrid sz p \<and> p \<in> (\<Union>rm \<in> set rs. roomTiles rm) then Some 0 else tileOf g sz p)"
  using assms
proof (induction rs arbitrary: g)
  case Nil
  then show ?case by simp
next
  case (Cons a rs)
  note c = carveRoom_tiles[OF Cons.prems, of a p]
  from c have l: "length (carveRoom g sz a) = nat (sz * sz)" by simp
  show ?case using Cons.IH[OF l] c by auto
qed

lemma set_foldl_carveRoom: "set (foldl (\<lambda>m rm. carveRoom m sz rm) g rs) \<subseteq> insert 0 (set g)"
  by (rule set_foldl_write) (rule set_carveRoom)

lemma splitRounds_treeOk:
  assumes "validRandom rnd" "0 \<le> m" "treeOk sz (fst st)"
  shows "treeOk sz (fst (splitRounds k rnd m st))"
  using assms(3)
  by (rule splitRounds_invariant[where P = "treeOk sz", rotated])
     (rule splitAt_treeOk[OF assms(1) assms(2)])

lemma splitRounds_nodesAtLeast:
  assumes "validRandom rnd" "d \<le> m" "nodesAtLeast d (fst st)"
  shows "nodesAtLeast d (fst (splitRounds k rnd m st))"
  using assms(3)
  by (rule splitRounds_invariant[where P = "nodesAtLeast d", rotated])
     (rule splitAt_nodesAtLeast[OF assms(1) assms(2)])

lemma createRoom_positive:
  "validRandom rnd \<Longrightarrow> 1 \<le> minRoomSize \<Longrightarrow> 1 \<le> maxRoomSize \<Longrightarrow> treeOk sz node
     \<Longrightarrow> nodesAtLeast 3 node
     \<Longrightarrow> \<forall>rm \<in> set (getAllRooms (fst (createRoom rnd n minRoomSize maxRoomSize node))).
           1 \<le> r_width rm \<and> 1 \<le> r_height rm"
proof (induction rnd n minRoomSize maxRoomSize node rule: createRoom.induct)
  case (1 rnd n minRoomSize maxRoomSize px py w h lc rc rm)
  show ?case
  proof (cases lc)
    case None
    with "1.prems"(4) have leaf: "lc = None" "rc = None" by simp_all
    from "1.prems"(5) have d: "3 \<le> w" "3 \<le> h" by simp_all
    have m: "0 \<le> minRoomSize" "0 \<le> maxRoomSize" using "1.prems"(2,3) by simp_all
    from roomExtent_bounds[OF "1.prems"(1) m, of n w] roomExtent_bounds[OF "1.prems"(1) m, of "n + 1" h]
      d "1.prems"(2,3)
    have "1 \<le> roomExtent rnd n minRoomSize maxRoomSize w"
      "1 \<le> roomExtent rnd (n + 1) minRoomSize maxRoomSize h" by linarith+
    then show ?thesis unfolding leaf createRoom_leaf by (simp add: newRoom_def)
  next
    case (Some l)
    with "1.prems"(4) obtain r where r: "rc = Some r" and okl: "treeOk sz l" and okr: "treeOk sz r"
      and rm: "rm = None"
      by (auto split: option.splits)
    from "1.prems"(5) Some r have dl: "nodesAtLeast 3 l" and dr: "nodesAtLeast 3 r" by simp_all
    obtain l' n1 where cl: "createRoom rnd n minRoomSize maxRoomSize l = (l', n1)" by fastforce
    obtain r' n2 where cr: "createRoom rnd n1 minRoomSize maxRoomSize r = (r', n2)" by fastforce
    have il: "\<forall>rm \<in> set (getAllRooms l'). 1 \<le> r_width rm \<and> 1 \<le> r_height rm"
      using "1.IH"(1)[of l, OF _ Some "1.prems"(1,2,3) okl dl] Some cl by simp
    have ir: "\<forall>rm \<in> set (getAllRooms r'). 1 \<le> r_width rm \<and> 1 \<le> r_height rm"
      using "1.IH"(2)[of "(Some l', n1)" "Some l'" n1 r, OF _ _ _ r "1.prems"(1,2,3) okr dr] Some cl cr
      by simp
    show ?thesis using Some r rm cl cr il ir by auto
  qed
qed

text \<open>
  The result of \<^verbatim>\<open>generateDungeon\<close> for a map of at least one tile: the rooms are those
  of a tree \<open>t\<close> with a good room in every leaf, and the map has the portal at the exit,
  floor on the rooms and on a set \<open>K\<close> of corridor tiles, and wall elsewhere.
\<close>

definition generated ::
  "nat \<Rightarrow> dungeon \<Rightarrow> BSPNode \<Rightarrow> (int \<times> int) set \<Rightarrow> bool" where
  "generated s d t K =
     (roomsOk (int s) t \<and> d_rooms d = getAllRooms t \<and> d_size d = int s
      \<and> d_playerStart d = centre (d_rooms d ! 0) \<and> d_exit d = centre (last (d_rooms d))
      \<and> K \<subseteq> {p. inGrid (int s) p}
      \<and> tilesConnected (roomArea t \<union> K \<union> centres t)
      \<and> (leftChild t \<noteq> None \<longrightarrow> centres t \<subseteq> roomArea t \<union> K)
      \<and> (\<forall>p. tileOf (d_mapData d) (int s) p =
               (if p = d_exit d then Some 9
                else if p \<in> roomArea t \<union> K then Some 0
                else if inGrid (int s) p then Some 1 else None))
      \<and> length (filter (\<lambda>t. t = 9) (d_mapData d)) = 1)"

lemma generateDungeon_unfold:
  assumes sr: "splitRounds depth rnd (int minRoomSize) (newNode 0 0 (int s) (int s), [[]], 0)
                 = (root1, cs, n1)"
    and cr: "createRoom rnd n1 (int minRoomSize) (int maxRoomSize) root1 = (root2, n2)"
    and co: "connectRooms rnd n2 root2
               (foldl (\<lambda>m rm. carveRoom m (int s) rm) (replicate (s * s) 1) (getAllRooms root2))
               (int s) = (g2, n3)"
    and ne: "getAllRooms root2 \<noteq> []"
  shows "generateDungeon s minRoomSize maxRoomSize depth rnd =
           Inr \<lparr> d_mapData = writeTile g2 (int s) (r_centerX (last (getAllRooms root2)))
                               (r_centerY (last (getAllRooms root2))) 9,
                 d_size = int s, d_rooms = getAllRooms root2,
                 d_playerStart = (r_centerX (getAllRooms root2 ! 0), r_centerY (getAllRooms root2 ! 0)),
                 d_exit = (r_centerX (last (getAllRooms root2)), r_centerY (last (getAllRooms root2))) \<rparr>"
  using ne sr cr co by (simp add: generateDungeon_def Let_def last_conv_nth)

lemma generateDungeon_structure:
  assumes v: "validRandom rnd" and pos: "0 < s"
  shows "\<exists>d t K. generateDungeon s minRoomSize maxRoomSize depth rnd = Inr d \<and> generated s d t K
           \<and> (3 \<le> s \<and> 3 \<le> minRoomSize \<and> 1 \<le> maxRoomSize \<longrightarrow>
                (\<forall>rm \<in> set (d_rooms d). 1 \<le> r_width rm \<and> 1 \<le> r_height rm))"
proof -
  let ?sz = "int s"
  let ?g0 = "replicate (s * s) (1::nat)"
  let ?root0 = "newNode 0 0 ?sz ?sz"
  obtain root1 cs n1 where sr:
    "splitRounds depth rnd (int minRoomSize) (?root0, [[]], 0) = (root1, cs, n1)"
    by (metis prod_cases3)
  obtain root2 n2 where cr: "createRoom rnd n1 (int minRoomSize) (int maxRoomSize) root1 = (root2, n2)"
    by fastforce
  let ?rooms = "getAllRooms root2"
  let ?g1 = "foldl (\<lambda>m rm. carveRoom m ?sz rm) ?g0 ?rooms"
  obtain g2 n3 where co: "connectRooms rnd n2 root2 ?g1 ?sz = (g2, n3)" by fastforce
  have ok0: "treeOk ?sz ?root0" using pos by (simp add: newNode_def)
  have ok1: "treeOk ?sz root1"
    using splitRounds_treeOk[OF v, of "int minRoomSize" ?sz "(?root0, [[]], 0)" depth] ok0 sr by simp
  have ok2: "roomsOk ?sz root2"
    using createRoom_roomsOk[OF v _ _ ok1, of "int minRoomSize" "int maxRoomSize" n1] cr by simp
  have ne: "?rooms \<noteq> []" using getAllRooms_nonempty[OF ok2] .
  let ?ex = "centre (last ?rooms)"
  let ?g3 = "writeTile g2 ?sz (fst ?ex) (snd ?ex) 9"
  let ?d = "\<lparr> d_mapData = ?g3, d_size = ?sz, d_rooms = ?rooms,
               d_playerStart = centre (?rooms ! 0), d_exit = ?ex \<rparr>"
  have res: "generateDungeon s minRoomSize maxRoomSize depth rnd = Inr ?d"
    using generateDungeon_unfold[OF sr cr co ne] by (simp add: centre_def)
  have len0: "length ?g0 = nat (?sz * ?sz)" by (simp add: nat_mult_distrib)
  note carve = foldl_carveRoom[OF len0, of ?rooms]
  have len1: "length ?g1 = nat (?sz * ?sz)" using carve by simp
  have area_in: "roomArea root2 \<subseteq> {p. inGrid ?sz p}"
    using roomsOk_good[OF ok2] by (auto simp add: roomArea_def goodRoom_def)
  have t1: "tileOf ?g1 ?sz p = (if p \<in> roomArea root2 then Some 0 else tileOf ?g0 ?sz p)" for p
    using carve[of p] area_in by (auto simp add: roomArea_def)
  then have carved: "\<forall>p \<in> roomArea root2. tileOf ?g1 ?sz p = Some 0" by simp
  from connectRooms_connects[OF ok2 len1 carved, of rnd n2] co
  obtain K where K: "connectResult ?sz root2 ?g1 g2 K" by auto
  have len2: "length g2 = nat (?sz * ?sz)" using K by (simp add: connectResult_def)
  have Ksub: "K \<subseteq> {p. inGrid ?sz p}" using K by (simp add: connectResult_def)
  have conn: "tilesConnected (roomArea root2 \<union> K \<union> centres root2)"
    using K by (simp add: connectResult_def)
  have csub: "leftChild root2 \<noteq> None \<longrightarrow> centres root2 \<subseteq> roomArea root2 \<union> K"
    using K by (simp add: connectResult_def)
  have "last ?rooms \<in> set ?rooms" using ne by simp
  then have exin: "inGrid ?sz ?ex" using roomsOk_good[OF ok2] by (simp add: goodRoom_def)
  have tiles: "tileOf ?g3 ?sz p =
      (if p = ?ex then Some 9 else if p \<in> roomArea root2 \<union> K then Some 0
       else if inGrid ?sz p then Some 1 else None)" for p
  proof -
    have "tileOf ?g3 ?sz p = (if p = ?ex then Some 9 else tileOf g2 ?sz p)"
      using tileOf_writeTile[OF len2, of "fst ?ex" "snd ?ex" 9 p] exin by simp
    moreover have "tileOf g2 ?sz p = (if p \<in> K then Some 0 else tileOf ?g1 ?sz p)"
      using K by (rule connectResult_tile)
    ultimately show ?thesis using t1[of p] tileOf_walls[of s p] by simp
  qed
  have "set ?g0 \<subseteq> {1}" by auto
  moreover have "set ?g1 \<subseteq> insert 0 (set ?g0)" by (rule set_foldl_carveRoom)
  moreover have "set g2 \<subseteq> insert 0 (set ?g1)" using set_connectRooms[of rnd n2 root2 ?g1 ?sz] co by simp
  ultimately have "set g2 \<subseteq> {0, 1}" by blast
  then have no9: "9 \<notin> set g2" by auto
  have g3: "?g3 = g2[nat (snd ?ex * ?sz + fst ?ex) := 9]"
    using exin by (simp add: writeTile_def inGrid_def)
  have "nat (snd ?ex * ?sz + fst ?ex) < length g2"
    using index_range[OF exin] len2 by (simp add: nat_less_iff)
  from one_portal[OF no9 this] have one: "length (filter (\<lambda>t. t = 9) ?g3) = 1" unfolding g3 .
  have gen: "generated s ?d root2 K"
    unfolding generated_def using ok2 Ksub conn csub tiles one by simp
  have big: "3 \<le> s \<and> 3 \<le> minRoomSize \<and> 1 \<le> maxRoomSize \<longrightarrow>
      (\<forall>rm \<in> set ?rooms. 1 \<le> r_width rm \<and> 1 \<le> r_height rm)"
  proof
    assume a: "3 \<le> s \<and> 3 \<le> minRoomSize \<and> 1 \<le> maxRoomSize"
    then have "nodesAtLeast 3 ?root0" by (simp add: newNode_def)
    then have "nodesAtLeast 3 root1"
      using splitRounds_nodesAtLeast[OF v, of 3 "int minRoomSize" "(?root0, [[]], 0)" depth] a sr by simp
    from createRoom_positive[OF v _ _ ok1 this, of "int minRoomSize" "int maxRoomSize" n1] a cr
    show "\<forall>rm \<in> set ?rooms. 1 \<le> r_width rm \<and> 1 \<le> r_height rm" by simp
  qed
  from res gen big show ?thesis by (intro exI[of _ ?d] exI[of _ root2] exI[of _ K]) simp
qed

lemma moveIn_reachable:
  assumes "\<forall>q \<in> S. walkable g sz q" "(moveIn S)\<^sup>*\<^sup>* p q"
  shows "reachable g sz p q"
  unfolding reachable_def using assms(2)
proof (induction rule: rtranclp_induct)
  case base
  then show ?case by simp
next
  case (step y z)
  from step.hyps(2) assms(1) have "move g sz y z" by (simp add: moveIn_def move_def)
  with step.IH show ?case by (rule rtranclp.rtrancl_into_rtrancl)
qed

lemma generated_reachable:
  assumes "generated s d t K"
  shows "d_rooms d \<noteq> []"
    and "walkable (d_mapData d) (d_size d) (d_playerStart d)"
    and "reachable (d_mapData d) (d_size d) (d_playerStart d) (d_exit d)"
    and "tileOf (d_mapData d) (d_size d) p = Some 0
           \<Longrightarrow> reachable (d_mapData d) (d_size d) (d_playerStart d) p"
proof -
  let ?S = "roomArea t \<union> K \<union> centres t"
  from assms have ok: "roomsOk (int s) t" and rooms: "d_rooms d = getAllRooms t"
    and sz: "d_size d = int s"
    and st: "d_playerStart d = centre (d_rooms d ! 0)" and ex: "d_exit d = centre (last (d_rooms d))"
    and conn: "tilesConnected ?S"
    and csub: "leftChild t \<noteq> None \<longrightarrow> centres t \<subseteq> roomArea t \<union> K"
    unfolding generated_def by simp_all
  from assms have tiles: "tileOf (d_mapData d) (int s) q =
      (if q = d_exit d then Some 9 else if q \<in> roomArea t \<union> K then Some 0
       else if inGrid (int s) q then Some 1 else None)" for q
    unfolding generated_def by blast
  show ne: "d_rooms d \<noteq> []" using getAllRooms_nonempty[OF ok] rooms by simp
  have stS: "d_playerStart d \<in> ?S" using ne st rooms by (simp add: centres_def)
  have exC: "d_exit d \<in> centres t"
    using ne ex rooms last_in_set[of "getAllRooms t"] by (simp add: centres_def)
  then have exS: "d_exit d \<in> ?S" by simp
  have leafc: "centres t = {d_exit d}" if "leftChild t = None"
    using centres_subset_leafcase[OF ok _ that, of "last (getAllRooms t)"] ne rooms ex by simp
  have walk: "\<forall>q \<in> ?S. walkable (d_mapData d) (d_size d) q"
  proof
    fix q assume q: "q \<in> ?S"
    have "q = d_exit d \<or> q \<in> roomArea t \<union> K"
    proof (cases "leftChild t = None")
      case True
      with q leafc show ?thesis by auto
    next
      case False
      with q csub show ?thesis by auto
    qed
    then show "walkable (d_mapData d) (d_size d) q"
      using tiles[of q] by (auto simp add: walkable_def sz)
  qed
  show "walkable (d_mapData d) (d_size d) (d_playerStart d)" using walk stS by blast
  have "(moveIn ?S)\<^sup>*\<^sup>* (d_playerStart d) (d_exit d)"
    using conn stS exS unfolding tilesConnected_def by blast
  then show "reachable (d_mapData d) (d_size d) (d_playerStart d) (d_exit d)"
    by (rule moveIn_reachable[OF walk])
  show "reachable (d_mapData d) (d_size d) (d_playerStart d) p"
    if "tileOf (d_mapData d) (d_size d) p = Some 0"
  proof -
    from that tiles[of p] have "p \<in> roomArea t \<union> K" by (auto simp add: sz split: if_splits)
    then have "p \<in> ?S" by simp
    then have "(moveIn ?S)\<^sup>*\<^sup>* (d_playerStart d) p"
      using conn stS unfolding tilesConnected_def by blast
    then show ?thesis by (rule moveIn_reachable[OF walk])
  qed
qed

text \<open>A map of size 0 has no tile; its only room is the start room and the exit room.\<close>

lemma generateDungeon_empty:
  assumes v: "validRandom rnd"
  shows "\<exists>d. generateDungeon 0 minRoomSize maxRoomSize depth rnd = Inr d \<and> d_mapData d = []
           \<and> d_size d = 0 \<and> d_rooms d \<noteq> [] \<and> d_playerStart d = d_exit d"
proof -
  let ?root0 = "newNode 0 0 0 0"
  have step: "fst (snd (splitAt rnd n (int minRoomSize) p t)) = ?root0" if "t = ?root0" for n p t
  proof (cases p)
    case Nil
    then show ?thesis unfolding that by (simp add: newNode_def split_cases)
  next
    case (Cons a p')
    then show ?thesis unfolding that by (cases a) (simp_all add: newNode_def)
  qed
  obtain root1 cs n1 where sr:
    "splitRounds depth rnd (int minRoomSize) (?root0, [[]], 0) = (root1, cs, n1)"
    by (metis prod_cases3)
  have r1: "root1 = ?root0"
    using splitRounds_invariant[where P = "\<lambda>t. t = ?root0" and st = "(?root0, [[]], 0)"
        and rnd = rnd and m = "int minRoomSize" and k = depth] step sr by simp
  obtain root2 n2 where cr: "createRoom rnd n1 (int minRoomSize) (int maxRoomSize) root1 = (root2, n2)"
    by fastforce
  then obtain rm where r2: "root2 = BSPNode 0 0 0 0 None None (Some rm)"
    unfolding r1 newNode_def createRoom_leaf by auto
  have co: "connectRooms rnd n2 root2 g 0 = (g, n2)" for g unfolding r2 by simp
  have ne: "getAllRooms root2 \<noteq> []" unfolding r2 by simp
  have sr': "splitRounds depth rnd (int minRoomSize) (newNode 0 0 (int 0) (int 0), [[]], 0)
               = (root1, cs, n1)" using sr by simp
  have co': "connectRooms rnd n2 root2
               (foldl (\<lambda>m rm. carveRoom m (int 0) rm) (replicate (0 * 0) 1) (getAllRooms root2))
               (int 0)
             = (foldl (\<lambda>m rm. carveRoom m (int 0) rm) (replicate (0 * 0) 1) (getAllRooms root2), n2)"
    using co by simp
  have "length (foldl (\<lambda>m rm. carveRoom m (int 0) rm) (replicate (0 * 0) 1) (getAllRooms root2)) = 0"
    using foldl_carveRoom[of "replicate (0 * 0) 1" "int 0" "getAllRooms root2"] by simp
  then have e: "foldl (\<lambda>m rm. carveRoom m (int 0) rm) (replicate (0 * 0) 1) (getAllRooms root2) = []"
    by simp
  have w: "writeTile [] sz px py v = []" for sz px py v by (simp add: writeTile_def)
  show ?thesis
    using generateDungeon_unfold[OF sr' cr co' ne] r2 unfolding e w by simp
qed

subsection \<open>C3: every floor tile can be reached from the player start\<close>

text \<open>
  C3.  For every size, room sizes and depth, and every stream of random values in
  \<open>[0, 1)\<close>, \<^verbatim>\<open>generateDungeon\<close> returns a dungeon whose list of rooms is not empty, in
  which the exit tile and every floor tile (code 0) can be reached from the tile of the
  player start by 4-connected moves onto tiles that are floor or portal; when the map
  has at least one tile the tile of the player start is itself floor or portal.
\<close>

theorem C3_floor_reachable_from_start:
  assumes "validRandom rnd"
  shows "\<exists>d. generateDungeon s minRoomSize maxRoomSize depth rnd = Inr d
           \<and> d_rooms d \<noteq> []
           \<and> reachable (d_mapData d) (d_size d) (d_playerStart d) (d_exit d)
           \<and> (\<forall>p. tileOf (d_mapData d) (d_size d) p = Some 0
                  \<longrightarrow> reachable (d_mapData d) (d_size d) (d_playerStart d) p)
           \<and> (0 < s \<longrightarrow> walkable (d_mapData d) (d_size d) (d_playerStart d))"
proof (cases "0 < s")
  case True
  from generateDungeon_structure[OF assms True, of minRoomSize maxRoomSize depth]
  obtain d t K where d: "generateDungeon s minRoomSize maxRoomSize depth rnd = Inr d"
    and g: "generated s d t K" by blast
  note r = generated_reachable[OF g]
  show ?thesis using d r by blast
next
  case False
  then have z: "s = 0" by simp
  from generateDungeon_empty[OF assms, of minRoomSize maxRoomSize depth]
  obtain d where d: "generateDungeon 0 minRoomSize maxRoomSize depth rnd = Inr d"
    "d_mapData d = []" "d_size d = 0" "d_rooms d \<noteq> []" "d_playerStart d = d_exit d" by blast
  have "tileOf (d_mapData d) (d_size d) p \<noteq> Some 0" for p
    using d by (auto simp add: tileOf_def inGrid_def tileAt_def)
  moreover have "reachable (d_mapData d) (d_size d) (d_playerStart d) (d_exit d)"
    using d by (simp add: reachable_def)
  ultimately show ?thesis using d z by auto
qed

text \<open>The default parameters, with every random value equal to one half.\<close>

theorem C3_witness:
  "validRandom (\<lambda>n. 1/2)
   \<and> (\<exists>d. generateDungeon 24 4 8 4 (\<lambda>n. 1/2) = Inr d
        \<and> d_rooms d \<noteq> []
        \<and> reachable (d_mapData d) (d_size d) (d_playerStart d) (d_exit d)
        \<and> (\<forall>p. tileOf (d_mapData d) (d_size d) p = Some 0
               \<longrightarrow> reachable (d_mapData d) (d_size d) (d_playerStart d) p)
        \<and> walkable (d_mapData d) (d_size d) (d_playerStart d))"
proof -
  have v: "validRandom (\<lambda>n. 1/2)" by (simp add: validRandom_def)
  from C3_floor_reachable_from_start[OF v, of 24 4 8 4] v show ?thesis by simp
qed

subsection \<open>C4: the portal tile\<close>

definition tinyRoom :: Room where
  "tinyRoom = \<lparr> r_x = 1, r_y = 1, r_width = - 1, r_height = - 1, r_centerX = 0, r_centerY = 0 \<rparr>"

lemma generateDungeon_size1:
  "generateDungeon 1 4 8 4 (\<lambda>n. 0) =
     Inr \<lparr> d_mapData = [9], d_size = 1, d_rooms = [tinyRoom],
           d_playerStart = (0, 0), d_exit = (0, 0) \<rparr>"
proof -
  let ?root0 = "newNode 0 0 1 1"
  have step: "splitRound (\<lambda>n. 0) 4 (?root0, [[]], n) = (?root0, [[]], Suc n)" for n
    by (simp add: splitRound_def splitContainer_def newNode_def split_cases)
  have sr: "splitRounds 4 (\<lambda>n. 0) (int 4) (newNode 0 0 (int 1) (int 1), [[]], 0) = (?root0, [[]], 4)"
    by (simp add: eval_nat_numeral step)
  have cr: "createRoom (\<lambda>n. 0) 4 (int 4) (int 8) ?root0
              = (BSPNode 0 0 1 1 None None (Some tinyRoom), 8)"
    by (simp add: newNode_def Let_def newRoom_def tinyRoom_def)
  have co: "connectRooms (\<lambda>n. 0) 8 (BSPNode 0 0 1 1 None None (Some tinyRoom))
              (foldl (\<lambda>m rm. carveRoom m (int 1) rm) (replicate (1 * 1) 1)
                 (getAllRooms (BSPNode 0 0 1 1 None None (Some tinyRoom))))
              (int 1) = ([1], 8)"
    by (simp add: carveRoom_def tinyRoom_def)
  have ne: "getAllRooms (BSPNode 0 0 1 1 None None (Some tinyRoom)) \<noteq> []" by simp
  show ?thesis
    using generateDungeon_unfold[OF sr cr co ne]
    by (simp add: tinyRoom_def writeTile_def)
qed

text \<open>
  C4, as stated, fails on a map too small for a room.  For \<open>size = 1\<close> (and the default
  room sizes and depth) no split is possible and the room of the only leaf gets the
  width and height \<open>min(4, 1 - 2) = - 1\<close> at position \<open>(1, 1)\<close>; its centre is the tile
  \<open>(0, 0)\<close>.  The portal is written there, outside the exit room's rectangle, which has
  no tile at all.
\<close>

theorem C4_counterexample:
  "generateDungeon 1 4 8 4 (\<lambda>n. 0) =
     Inr \<lparr> d_mapData = [9], d_size = 1, d_rooms = [tinyRoom],
           d_playerStart = (0, 0), d_exit = (0, 0) \<rparr>
   \<and> (0, 0) \<notin> roomTiles (last [tinyRoom])
   \<and> roomTiles (last [tinyRoom]) = {}"
  using generateDungeon_size1 by (auto simp add: roomTiles_def tinyRoom_def)

text \<open>
  A map \<open>g'\<close> that is the map \<open>g\<close> with floor (0) written to some of its positions: every
  position holds the code it held in \<open>g\<close>, or 0.
\<close>

definition floorOnly :: "nat list \<Rightarrow> nat list \<Rightarrow> bool" where
  "floorOnly g g' = (length g' = length g \<and> (\<forall>i < length g. g' ! i = g ! i \<or> g' ! i = 0))"

lemma floorOnly_refl: "floorOnly g g"
  by (simp add: floorOnly_def)

lemma floorOnly_trans: "floorOnly g g' \<Longrightarrow> floorOnly g' g'' \<Longrightarrow> floorOnly g g''"
  unfolding floorOnly_def by (metis)

lemma floorOnly_update: "floorOnly g (g[n := 0])"
  unfolding floorOnly_def
  by (metis length_list_update nth_list_update_eq nth_list_update_neq)

lemma floorOnly_writeTile: "floorOnly g (writeTile g sz px py 0)"
  by (simp add: writeTile_def floorOnly_update floorOnly_refl)

lemma floorOnly_foldl:
  assumes "\<And>m a. floorOnly m (f m a)"
  shows "floorOnly g (foldl f g xs)"
proof (induction xs arbitrary: g)
  case Nil
  then show ?case by (simp add: floorOnly_refl)
next
  case (Cons a xs)
  have "floorOnly (f g a) (foldl f (f g a) xs)" by (rule Cons.IH)
  with assms[of g a] show ?case by (simp add: floorOnly_trans)
qed

lemma floorOnly_carveRoom: "floorOnly g (carveRoom g sz rm)"
  unfolding carveRoom_def
  by (rule floorOnly_foldl) (rule floorOnly_foldl, rule floorOnly_writeTile)

lemma floorOnly_createHorizontalTunnel: "floorOnly g (createHorizontalTunnel x1 x2 py g sz)"
  unfolding createHorizontalTunnel_def by (rule floorOnly_foldl) (rule floorOnly_writeTile)

lemma floorOnly_createVerticalTunnel: "floorOnly g (createVerticalTunnel y1 y2 px g sz)"
  unfolding createVerticalTunnel_def by (rule floorOnly_foldl) (rule floorOnly_writeTile)

text \<open>
  C4, amended.  For every map of at least one tile, exactly one tile of the generated
  grid has the portal code 9; it is the tile at \<^verbatim>\<open>exit\<close>, the centre of the last room of
  the list.  That tile lies within the rectangle of the last room when the map and the
  minimal room size are at least 3 and the maximal room size at least 1 (then every
  room has a positive width and height).  Carving a room and carving a tunnel write
  floor (0) and nothing else: on any array, every position keeps its code or becomes 0;
  and on a map of \<open>sz * sz\<close> tiles, carving a room sets exactly the tiles of the
  rectangle of the room that lie inside the map to 0, carving a tunnel sets exactly the
  tiles of its segment that lie inside the map to 0, and every other tile keeps the code
  it had.
\<close>

theorem C4_one_portal_at_exit:
  assumes "validRandom rnd" "0 < s"
  shows "(\<exists>d. generateDungeon s minRoomSize maxRoomSize depth rnd = Inr d
            \<and> d_rooms d \<noteq> []
            \<and> length (filter (\<lambda>t. t = 9) (d_mapData d)) = 1
            \<and> tileOf (d_mapData d) (d_size d) (d_exit d) = Some 9
            \<and> d_exit d = (r_centerX (last (d_rooms d)), r_centerY (last (d_rooms d)))
            \<and> (3 \<le> s \<and> 3 \<le> minRoomSize \<and> 1 \<le> maxRoomSize
                 \<longrightarrow> d_exit d \<in> roomTiles (last (d_rooms d))))
       \<and> floorOnly g (carveRoom g sz rm)
       \<and> floorOnly g (createHorizontalTunnel x1 x2 py g sz)
       \<and> floorOnly g (createVerticalTunnel y1 y2 px g sz)
       \<and> (length g = nat (sz * sz) \<longrightarrow>
             tileOf (carveRoom g sz rm) sz p =
               (if inGrid sz p \<and> p \<in> roomTiles rm then Some 0 else tileOf g sz p)
           \<and> tileOf (createHorizontalTunnel x1 x2 py g sz) sz p =
               (if inGrid sz p \<and> snd p = py \<and> min x1 x2 \<le> fst p \<and> fst p \<le> max x1 x2
                then Some 0 else tileOf g sz p)
           \<and> tileOf (createVerticalTunnel y1 y2 px g sz) sz p =
               (if inGrid sz p \<and> fst p = px \<and> min y1 y2 \<le> snd p \<and> snd p \<le> max y1 y2
                then Some 0 else tileOf g sz p))
       \<and> set (carveRoom g sz rm) \<subseteq> insert 0 (set g)
       \<and> set (createHorizontalTunnel x1 x2 py g sz) \<subseteq> insert 0 (set g)
       \<and> set (createVerticalTunnel y1 y2 px g sz) \<subseteq> insert 0 (set g)"
proof -
  from generateDungeon_structure[OF assms, of minRoomSize maxRoomSize depth]
  obtain d t K where d: "generateDungeon s minRoomSize maxRoomSize depth rnd = Inr d"
    and g: "generated s d t K"
    and big: "3 \<le> s \<and> 3 \<le> minRoomSize \<and> 1 \<le> maxRoomSize \<longrightarrow>
                (\<forall>rm \<in> set (d_rooms d). 1 \<le> r_width rm \<and> 1 \<le> r_height rm)"
    by blast
  from g have ok: "roomsOk (int s) t" and rooms: "d_rooms d = getAllRooms t"
    and sz: "d_size d = int s" and ex: "d_exit d = centre (last (d_rooms d))"
    and one: "length (filter (\<lambda>t. t = 9) (d_mapData d)) = 1"
    unfolding generated_def by simp_all
  from g have tiles: "tileOf (d_mapData d) (int s) q =
      (if q = d_exit d then Some 9 else if q \<in> roomArea t \<union> K then Some 0
       else if inGrid (int s) q then Some 1 else None)" for q
    unfolding generated_def by blast
  have ne: "d_rooms d \<noteq> []" using getAllRooms_nonempty[OF ok] rooms by simp
  have last_in: "last (d_rooms d) \<in> set (d_rooms d)" using ne by simp
  have good: "goodRoom (int s) (last (d_rooms d))"
    using roomsOk_good[OF ok] last_in rooms by simp
  have inside: "d_exit d \<in> roomTiles (last (d_rooms d))"
    if "3 \<le> s \<and> 3 \<le> minRoomSize \<and> 1 \<le> maxRoomSize"
  proof -
    from big that last_in have "1 \<le> r_width (last (d_rooms d))" "1 \<le> r_height (last (d_rooms d))"
      by simp_all
    then have "(r_x (last (d_rooms d)), r_y (last (d_rooms d))) \<in> roomTiles (last (d_rooms d))"
      by (simp add: roomTiles_def)
    then have "roomTiles (last (d_rooms d)) \<noteq> {}" by blast
    with good ex show ?thesis by (simp add: goodRoom_def)
  qed
  have "tileOf (d_mapData d) (d_size d) (d_exit d) = Some 9" using tiles[of "d_exit d"] sz by simp
  with d ne one ex inside
  have portal: "\<exists>d. generateDungeon s minRoomSize maxRoomSize depth rnd = Inr d
            \<and> d_rooms d \<noteq> []
            \<and> length (filter (\<lambda>t. t = 9) (d_mapData d)) = 1
            \<and> tileOf (d_mapData d) (d_size d) (d_exit d) = Some 9
            \<and> d_exit d = (r_centerX (last (d_rooms d)), r_centerY (last (d_rooms d)))
            \<and> (3 \<le> s \<and> 3 \<le> minRoomSize \<and> 1 \<le> maxRoomSize
                 \<longrightarrow> d_exit d \<in> roomTiles (last (d_rooms d)))"
    by (auto simp add: centre_def)
  have tile: "tileOf (carveRoom g sz rm) sz p =
               (if inGrid sz p \<and> p \<in> roomTiles rm then Some 0 else tileOf g sz p)
           \<and> tileOf (createHorizontalTunnel x1 x2 py g sz) sz p =
               (if inGrid sz p \<and> snd p = py \<and> min x1 x2 \<le> fst p \<and> fst p \<le> max x1 x2
                then Some 0 else tileOf g sz p)
           \<and> tileOf (createVerticalTunnel y1 y2 px g sz) sz p =
               (if inGrid sz p \<and> fst p = px \<and> min y1 y2 \<le> snd p \<and> snd p \<le> max y1 y2
                then Some 0 else tileOf g sz p)" if l: "length g = nat (sz * sz)"
    using carveRoom_tiles[OF l, of rm p] horizontalTunnel_tiles[OF l, of x1 x2 py p]
      verticalTunnel_tiles[OF l, of y1 y2 px p] by blast
  from portal tile show ?thesis
    using floorOnly_carveRoom[of g sz rm] floorOnly_createHorizontalTunnel[of g x1 x2 py sz]
      floorOnly_createVerticalTunnel[of g y1 y2 px sz]
      set_carveRoom[of g sz rm] set_createHorizontalTunnel[of x1 x2 py g sz]
      set_createVerticalTunnel[of y1 y2 px g sz] by blast
qed

text \<open>
  The default parameters, with every random value equal to one half; and a map of 2 by 2
  wall tiles, carved by the room of one tile at \<open>(0, 0)\<close>, by the tunnel along row 1 and
  by the tunnel along column 1, seen at the tiles \<open>(0, 0)\<close> and \<open>(1, 1)\<close>.
\<close>

definition walls2 :: "nat list" where
  "walls2 = [1, 1, 1, 1]"

theorem C4_witness:
  "validRandom (\<lambda>n. 1/2) \<and> (0::nat) < 24
   \<and> (\<exists>d. generateDungeon 24 4 8 4 (\<lambda>n. 1/2) = Inr d
        \<and> d_rooms d \<noteq> []
        \<and> length (filter (\<lambda>t. t = 9) (d_mapData d)) = 1
        \<and> tileOf (d_mapData d) (d_size d) (d_exit d) = Some 9
        \<and> d_exit d = (r_centerX (last (d_rooms d)), r_centerY (last (d_rooms d)))
        \<and> d_exit d \<in> roomTiles (last (d_rooms d)))
   \<and> length walls2 = nat (2 * 2)
   \<and> tileOf (carveRoom walls2 2 (newRoom 0 0 1 1)) 2 (0, 0) = Some 0
   \<and> tileOf (carveRoom walls2 2 (newRoom 0 0 1 1)) 2 (1, 1) = Some 1
   \<and> tileOf (createHorizontalTunnel 0 1 1 walls2 2) 2 (0, 0) = Some 1
   \<and> tileOf (createHorizontalTunnel 0 1 1 walls2 2) 2 (1, 1) = Some 0
   \<and> tileOf (createVerticalTunnel 0 1 1 walls2 2) 2 (0, 0) = Some 1
   \<and> tileOf (createVerticalTunnel 0 1 1 walls2 2) 2 (1, 1) = Some 0"
proof -
  have v: "validRandom (\<lambda>n. 1/2)" by (simp add: validRandom_def)
  have p: "(0::nat) < 24" by simp
  have l: "length walls2 = nat (2 * 2)" by (simp add: walls2_def)
  have w: "tileOf walls2 2 (0, 0) = Some 1" "tileOf walls2 2 (1, 1) = Some 1"
    by (simp_all add: tileOf_def inGrid_def tileAt_def walls2_def)
  have r: "(0, 0) \<in> roomTiles (newRoom 0 0 1 1)" "(1, 1) \<notin> roomTiles (newRoom 0 0 1 1)"
    by (simp_all add: roomTiles_def newRoom_def)
  have i: "inGrid 2 (0, 0)" "inGrid 2 (1, 1)" by (simp_all add: inGrid_def)
  note a = C4_one_portal_at_exit[OF v p, where minRoomSize = 4 and maxRoomSize = 8 and depth = 4
      and g = walls2 and sz = 2 and rm = "newRoom 0 0 1 1" and p = "(0, 0)"
      and ?x1.0 = 0 and ?x2.0 = 1 and py = 1 and ?y1.0 = 0 and ?y2.0 = 1 and px = 1]
  note b = C4_one_portal_at_exit[OF v p, where minRoomSize = 4 and maxRoomSize = 8 and depth = 4
      and g = walls2 and sz = 2 and rm = "newRoom 0 0 1 1" and p = "(1, 1)"
      and ?x1.0 = 0 and ?x2.0 = 1 and py = 1 and ?y1.0 = 0 and ?y2.0 = 1 and px = 1]
  from a l have a': "tileOf (carveRoom walls2 2 (newRoom 0 0 1 1)) 2 (0, 0) = Some 0"
    "tileOf (createHorizontalTunnel 0 1 1 walls2 2) 2 (0, 0) = Some 1"
    "tileOf (createVerticalTunnel 0 1 1 walls2 2) 2 (0, 0) = Some 1"
    using w r i by simp_all
  from b l have b': "tileOf (carveRoom walls2 2 (newRoom 0 0 1 1)) 2 (1, 1) = Some 1"
    "tileOf (createHorizontalTunnel 0 1 1 walls2 2) 2 (1, 1) = Some 0"
    "tileOf (createVerticalTunnel 0 1 1 walls2 2) 2 (1, 1) = Some 0"
    using w r i by simp_all
  from a have "\<exists>d. generateDungeon 24 4 8 4 (\<lambda>n. 1/2) = Inr d
        \<and> d_rooms d \<noteq> []
        \<and> length (filter (\<lambda>t. t = 9) (d_mapData d)) = 1
        \<and> tileOf (d_mapData d) (d_size d) (d_exit d) = Some 9
        \<and> d_exit d = (r_centerX (last (d_rooms d)), r_centerY (last (d_rooms d)))
        \<and> d_exit d \<in> roomTiles (last (d_rooms d))" by simp
  with v p l a' b' show ?thesis by blast
qed

section \<open>Enemy: pathfinding (Enemy.findPath)\<close>

text \<open>
  A node of the open set: \<^verbatim>\<open>{x, y, g, h, f, parent}\<close>, the parent \<^verbatim>\<open>null\<close> for the start
  node.
\<close>

datatype pnode =
  PNode (p_x: int) (p_y: int) (p_g: int) (p_h: int) (p_f: int) (p_parent: "pnode option")

definition nodeTile :: "pnode \<Rightarrow> int \<times> int" where
  "nodeTile nd = (p_x nd, p_y nd)"

text \<open>
  The path reconstruction \<^verbatim>\<open>while (node.parent) { path.unshift(...); node = node.parent; }\<close>.
\<close>

fun pathTo :: "pnode \<Rightarrow> (real \<times> real) list \<Rightarrow> (real \<times> real) list" where
  "pathTo (PNode px py g h f None) path = path"
| "pathTo (PNode px py g h f (Some parent)) path =
     pathTo parent ((real_of_int px + 1/2, real_of_int py + 1/2) # path)"

text \<open>
  \<^verbatim>\<open>closedSet.add\<close> on a set kept in insertion order; \<^verbatim>\<open>closedSet.size\<close> is the length.
\<close>

definition closedAdd :: "int \<times> int \<Rightarrow> (int \<times> int) list \<Rightarrow> (int \<times> int) list" where
  "closedAdd c closedSet = (if c \<in> set closedSet then closedSet else closedSet @ [c])"

text \<open>The body of \<^verbatim>\<open>for (const neighbor of neighbors)\<close>.\<close>

definition visitNeighbor ::
  "nat list \<Rightarrow> int \<Rightarrow> int \<Rightarrow> int \<Rightarrow> (int \<times> int) list \<Rightarrow> pnode \<Rightarrow> pnode list \<Rightarrow> int \<times> int
     \<Rightarrow> pnode list" where
  "visitNeighbor mapData mapSize endX endY closedSet current openSet neighbor =
     (let nx = fst neighbor; ny = snd neighbor in
      if nx < 0 \<or> nx \<ge> mapSize \<or> ny < 0 \<or> ny \<ge> mapSize then openSet
      else if (nx, ny) \<in> set closedSet then openSet
      else if tileAt mapData (ny * mapSize + nx) \<noteq> Some 0 then openSet
      else
        (let g = p_g current + 1;
             h = \<bar>nx - endX\<bar> + \<bar>ny - endY\<bar>;
             f = g + h
         in case find (\<lambda>n. p_x n = nx \<and> p_y n = ny) openSet of
              Some existing \<Rightarrow>
                if p_g existing \<le> g then openSet
                else openSet @ [PNode nx ny g h f (Some current)]
            | None \<Rightarrow> openSet @ [PNode nx ny g h f (Some current)]))"

definition neighbors :: "pnode \<Rightarrow> (int \<times> int) list" where
  "neighbors current =
     [(p_x current + 1, p_y current), (p_x current - 1, p_y current),
      (p_x current, p_y current + 1), (p_x current, p_y current - 1)]"

text \<open>
  How the search ends: the goal node is taken from the open set, the open set runs
  empty, or more than 200 tiles are closed.
\<close>

datatype searchEnd = Found pnode | Exhausted | OverBudget

lemma filter_closed_visitNeighbor:
  "filter (\<lambda>n. nodeTile n \<in> set closedSet)
      (visitNeighbor mapData mapSize endX endY closedSet current openSet neighbor)
   = filter (\<lambda>n. nodeTile n \<in> set closedSet) openSet"
  by (auto simp add: visitNeighbor_def Let_def nodeTile_def split: option.splits)

lemma filter_closed_visitAll:
  "filter (\<lambda>n. nodeTile n \<in> set closedSet)
      (foldl (visitNeighbor mapData mapSize endX endY closedSet current) openSet ns)
   = filter (\<lambda>n. nodeTile n \<in> set closedSet) openSet"
  by (induction ns arbitrary: openSet) (simp_all add: filter_closed_visitNeighbor)

text \<open>
  The loop \<^verbatim>\<open>while (openSet.length > 0)\<close>.  The sort is stable, as the one of the
  language is.
\<close>

function findPathLoop ::
  "nat list \<Rightarrow> int \<Rightarrow> int \<Rightarrow> int \<Rightarrow> pnode list \<Rightarrow> (int \<times> int) list \<Rightarrow> searchEnd" where
  "findPathLoop mapData mapSize endX endY openSet closedSet =
     (if openSet = [] then Exhausted
      else
        (let sorted = sort_key p_f openSet;
             current = hd sorted;
             rest = tl sorted
         in if p_x current = endX \<and> p_y current = endY then Found current
            else
              (let closedSet' = closedAdd (nodeTile current) closedSet;
                   openSet' = foldl (visitNeighbor mapData mapSize endX endY closedSet' current)
                                rest (neighbors current)
               in if length closedSet' > 200 then OverBudget
                  else findPathLoop mapData mapSize endX endY openSet' closedSet')))"
  by pat_completeness auto
termination
proof (relation "measures
    [\<lambda>(mapData, mapSize, endX, endY, openSet, closedSet). 201 - length closedSet,
     \<lambda>(mapData, mapSize, endX, endY, openSet, closedSet).
        length (filter (\<lambda>n. nodeTile n \<in> set closedSet) openSet)]", goal_cases)
  case 1
  then show ?case by simp
next
  case (2 mapData mapSize endX endY openSet closedSet sorted current rest closedSet' openSet')
  show ?case
  proof (cases "nodeTile current \<in> set closedSet")
    case False
    then have "length closedSet' = length closedSet + 1" using 2 by (simp add: closedAdd_def)
    moreover have "length closedSet' \<le> 200" using 2 by simp
    ultimately have "201 - length closedSet' < 201 - length closedSet" by linarith
    then show ?thesis by simp
  next
    case True
    then have c: "closedSet' = closedSet" using 2 by (simp add: closedAdd_def)
    have ne: "sorted \<noteq> []" using 2 by (metis length_0_conv length_sort)
    then have s: "sorted = current # rest" using 2 by simp
    have "length (filter (\<lambda>n. nodeTile n \<in> set closedSet) openSet')
            = length (filter (\<lambda>n. nodeTile n \<in> set closedSet) rest)"
      using 2 c by (simp add: filter_closed_visitAll)
    moreover have "length (filter (\<lambda>n. nodeTile n \<in> set closedSet) sorted)
            = length (filter (\<lambda>n. nodeTile n \<in> set closedSet) openSet)"
      using 2 by (simp add: filter_sort)
    ultimately show ?thesis using True c s by simp
  qed
qed

declare findPathLoop.simps [simp del]

definition findPathSearch :: "enemy \<Rightarrow> real \<Rightarrow> real \<Rightarrow> nat list \<Rightarrow> int \<Rightarrow> searchEnd" where
  "findPathSearch e targetX targetY mapData mapSize =
     (let startX = \<lfloor>e_x e\<rfloor>; startY = \<lfloor>e_y e\<rfloor>;
          endX = \<lfloor>targetX\<rfloor>; endY = \<lfloor>targetY\<rfloor>
      in findPathLoop mapData mapSize endX endY [PNode startX startY 0 0 0 None] [])"

definition findPath :: "enemy \<Rightarrow> real \<Rightarrow> real \<Rightarrow> nat list \<Rightarrow> int \<Rightarrow> (real \<times> real) list" where
  "findPath e targetX targetY mapData mapSize =
     (case findPathSearch e targetX targetY mapData mapSize of
        Found current \<Rightarrow> pathTo current []
      | Exhausted \<Rightarrow> []
      | OverBudget \<Rightarrow> [])"

subsection \<open>What the search maintains\<close>

text \<open>A step onto a floor tile of the map, and any number of them.\<close>

definition floorStep :: "nat list \<Rightarrow> int \<Rightarrow> int \<times> int \<Rightarrow> int \<times> int \<Rightarrow> bool" where
  "floorStep mapData mapSize p q = (adjacent p q \<and> tileOf mapData mapSize q = Some 0)"


text \<open>
  A node whose chain of parents walks back to the start tile \<open>s\<close> over floor tiles, and
  the tiles of that chain after the start tile, in walking order.
\<close>

fun validNode :: "nat list \<Rightarrow> int \<Rightarrow> int \<times> int \<Rightarrow> pnode \<Rightarrow> bool" where
  "validNode mapData mapSize s (PNode px py g h f None) = ((px, py) = s)"
| "validNode mapData mapSize s (PNode px py g h f (Some parent)) =
     (floorStep mapData mapSize (nodeTile parent) (px, py) \<and> validNode mapData mapSize s parent)"

fun chainTiles :: "pnode \<Rightarrow> (int \<times> int) list" where
  "chainTiles (PNode px py g h f None) = []"
| "chainTiles (PNode px py g h f (Some parent)) = chainTiles parent @ [(px, py)]"

definition tileCentre :: "int \<times> int \<Rightarrow> real \<times> real" where
  "tileCentre t = (real_of_int (fst t) + 1/2, real_of_int (snd t) + 1/2)"

definition pointTile :: "real \<times> real \<Rightarrow> int \<times> int" where
  "pointTile w = (\<lfloor>fst w\<rfloor>, \<lfloor>snd w\<rfloor>)"

lemma pointTile_tileCentre [simp]: "pointTile (tileCentre t) = t"
proof -
  have "\<lfloor>real_of_int a + 1/2\<rfloor> = a" for a by linarith
  then show ?thesis by (simp add: pointTile_def tileCentre_def)
qed

lemma pathTo_chain: "pathTo nd path = map tileCentre (chainTiles nd) @ path"
  by (induction nd path rule: pathTo.induct) (simp_all add: tileCentre_def)

lemma successively_snoc:
  "successively P xs \<Longrightarrow> xs \<noteq> [] \<Longrightarrow> P (last xs) y \<Longrightarrow> successively P (xs @ [y])"
  by (simp add: successively_append_iff)

lemma chain_walk:
  "validNode mapData mapSize s nd \<Longrightarrow>
     (\<forall>t \<in> set (chainTiles nd). tileOf mapData mapSize t = Some 0)
     \<and> successively adjacent (s # chainTiles nd)
     \<and> last (s # chainTiles nd) = nodeTile nd"
proof (induction mapData mapSize s nd rule: validNode.induct)
  case (1 mapData mapSize s px py g h f)
  then show ?case by (simp add: nodeTile_def)
next
  case (2 mapData mapSize s px py g h f parent)
  then have v: "validNode mapData mapSize s parent"
    and st: "floorStep mapData mapSize (nodeTile parent) (px, py)" by simp_all
  from "2.IH"[OF v] have ih: "\<forall>t \<in> set (chainTiles parent). tileOf mapData mapSize t = Some 0"
    "successively adjacent (s # chainTiles parent)"
    "last (s # chainTiles parent) = nodeTile parent" by simp_all
  have a: "adjacent (last (s # chainTiles parent)) (px, py)"
    unfolding ih(3) using st by (simp add: floorStep_def)
  have "successively adjacent ((s # chainTiles parent) @ [(px, py)])"
    by (rule successively_snoc[OF ih(2) _ a]) simp
  then show ?case using ih(1) st by (simp add: floorStep_def nodeTile_def)
qed


lemma adjacent_neighbors: "adjacent (nodeTile current) q = (q \<in> set (neighbors current))"
proof -
  obtain a b where q: "q = (a, b)" by (cases q)
  have "\<bar>c - a\<bar> + \<bar>d - b\<bar> = 1 \<longleftrightarrow>
        (a = c + 1 \<and> b = d) \<or> (a = c - 1 \<and> b = d) \<or> (a = c \<and> b = d + 1) \<or> (a = c \<and> b = d - 1)"
    for c d :: int by auto
  then show ?thesis by (auto simp add: adjacent_def nodeTile_def neighbors_def q)
qed

lemma visitNeighbor_cases:
  "visitNeighbor mapData mapSize endX endY closedSet current openSet q = openSet
   \<or> (\<exists>g h f. visitNeighbor mapData mapSize endX endY closedSet current openSet q
                 = openSet @ [PNode (fst q) (snd q) g h f (Some current)]
        \<and> tileOf mapData mapSize q = Some 0 \<and> q \<notin> set closedSet)"
  by (auto simp add: visitNeighbor_def Let_def tileOf_def inGrid_def split: option.splits)

lemma visitNeighbor_covers:
  assumes "tileOf mapData mapSize q = Some 0" "q \<notin> set closedSet"
  shows "q \<in> nodeTile ` set (visitNeighbor mapData mapSize endX endY closedSet current openSet q)"
proof (cases "find (\<lambda>n. p_x n = fst q \<and> p_y n = snd q) openSet")
  case None
  with assms show ?thesis
    by (auto simp add: visitNeighbor_def Let_def tileOf_def inGrid_def nodeTile_def split: if_splits)
next
  case (Some existing)
  then have "existing \<in> set openSet" "nodeTile existing = q"
    by (auto simp add: find_Some_iff nodeTile_def prod_eq_iff)
  then have "q \<in> nodeTile ` set openSet" by force
  moreover have "set openSet \<subseteq> set (visitNeighbor mapData mapSize endX endY closedSet current openSet q)"
    using visitNeighbor_cases[of mapData mapSize endX endY closedSet current openSet q] by auto
  ultimately show ?thesis by blast
qed

lemma visitAll_props:
  assumes "\<forall>n \<in> set openSet. validNode mapData mapSize s n"
    and "validNode mapData mapSize s current"
    and "\<forall>q \<in> set ns. adjacent (nodeTile current) q"
  shows "(\<forall>n \<in> set (foldl (visitNeighbor mapData mapSize endX endY closedSet current) openSet ns).
            validNode mapData mapSize s n)
       \<and> set openSet \<subseteq> set (foldl (visitNeighbor mapData mapSize endX endY closedSet current) openSet ns)
       \<and> (\<forall>q \<in> set ns. tileOf mapData mapSize q = Some 0 \<and> q \<notin> set closedSet \<longrightarrow>
            q \<in> nodeTile ` set (foldl (visitNeighbor mapData mapSize endX endY closedSet current) openSet ns))"
  using assms
proof (induction ns arbitrary: openSet)
  case Nil
  then show ?case by simp
next
  case (Cons q ns)
  let ?o1 = "visitNeighbor mapData mapSize endX endY closedSet current openSet q"
  let ?res = "foldl (visitNeighbor mapData mapSize endX endY closedSet current) ?o1 ns"
  note c = visitNeighbor_cases[of mapData mapSize endX endY closedSet current openSet q]
  have adjq: "adjacent (nodeTile current) q" using Cons.prems(3) by simp
  have v1: "\<forall>n \<in> set ?o1. validNode mapData mapSize s n"
    using c Cons.prems(1,2) adjq by (auto simp add: floorStep_def)
  have sub1: "set openSet \<subseteq> set ?o1" using c by auto
  have rest: "\<forall>q \<in> set ns. adjacent (nodeTile current) q" using Cons.prems(3) by simp
  note ih = Cons.IH[OF v1 Cons.prems(2) rest]
  have cov: "q \<in> nodeTile ` set ?res" if "tileOf mapData mapSize q = Some 0" "q \<notin> set closedSet"
    using visitNeighbor_covers[OF that, of endX endY current openSet] ih by auto
  show ?case using ih sub1 cov by auto
qed

lemma set_closedAdd [simp]: "set (closedAdd c closedSet) = insert c (set closedSet)"
  by (auto simp add: closedAdd_def)

lemma sorted_parts:
  assumes "openSet \<noteq> []"
  shows "set openSet = insert (hd (sort_key p_f openSet)) (set (tl (sort_key p_f openSet)))"
proof -
  have "sort_key p_f openSet \<noteq> []" using assms by (metis length_0_conv length_sort)
  then have "set (sort_key p_f openSet)
      = insert (hd (sort_key p_f openSet)) (set (tl (sort_key p_f openSet)))"
    by (cases "sort_key p_f openSet") simp_all
  then show ?thesis by simp
qed

lemma findPathLoop_found:
  "findPathLoop mapData mapSize endX endY openSet closedSet = Found nd
     \<Longrightarrow> \<forall>n \<in> set openSet. validNode mapData mapSize s n
     \<Longrightarrow> validNode mapData mapSize s nd \<and> nodeTile nd = (endX, endY)"
proof (induction mapData mapSize endX endY openSet closedSet rule: findPathLoop.induct)
  case (1 mapData mapSize endX endY openSet closedSet)
  let ?current = "hd (sort_key p_f openSet)"
  let ?rest = "tl (sort_key p_f openSet)"
  let ?closed' = "closedAdd (nodeTile ?current) closedSet"
  let ?open' = "foldl (visitNeighbor mapData mapSize endX endY ?closed' ?current) ?rest (neighbors ?current)"
  from "1.prems"(1) have ne: "openSet \<noteq> []" by (subst (asm) findPathLoop.simps) (auto split: if_splits)
  note parts = sorted_parts[OF ne]
  have vc: "validNode mapData mapSize s ?current" using "1.prems"(2) parts by auto
  have vr: "\<forall>n \<in> set ?rest. validNode mapData mapSize s n" using "1.prems"(2) parts by auto
  show ?case
  proof (cases "p_x ?current = endX \<and> p_y ?current = endY")
    case True
    with "1.prems"(1) ne have "nd = ?current"
      by (subst (asm) findPathLoop.simps) (simp add: Let_def)
    with True vc show ?thesis by (simp add: nodeTile_def)
  next
    case False
    with "1.prems"(1) ne have small: "\<not> length ?closed' > 200"
      and rec: "findPathLoop mapData mapSize endX endY ?open' ?closed' = Found nd"
      by (subst (asm) findPathLoop.simps, simp add: Let_def split: if_splits)+
    have adj: "\<forall>q \<in> set (neighbors ?current). adjacent (nodeTile ?current) q"
      by (simp add: adjacent_neighbors)
    from visitAll_props[OF vr vc adj, of endX endY ?closed']
    have vo: "\<forall>n \<in> set ?open'. validNode mapData mapSize s n" by blast
    show ?thesis
      using "1.IH"[OF ne refl refl refl False refl refl small rec vo] .
  qed
qed



subsection \<open>C6: what findPath returns\<close>

text \<open>
  The search from the start node: a node it finds is a chain of floor steps from the
  start tile to the goal tile, and a search that runs empty shows that no such chain
  exists.
\<close>

lemma findPathSearch_found:
  assumes "findPathSearch e targetX targetY mapData mapSize = Found nd"
  shows "validNode mapData mapSize (\<lfloor>e_x e\<rfloor>, \<lfloor>e_y e\<rfloor>) nd \<and> nodeTile nd = (\<lfloor>targetX\<rfloor>, \<lfloor>targetY\<rfloor>)"
  using assms unfolding findPathSearch_def Let_def
  by (rule findPathLoop_found) simp



lemma findPath_cases:
  "(\<exists>nd. findPathSearch e targetX targetY mapData mapSize = Found nd
        \<and> findPath e targetX targetY mapData mapSize = map tileCentre (chainTiles nd))
   \<or> (findPathSearch e targetX targetY mapData mapSize \<in> {Exhausted, OverBudget}
        \<and> findPath e targetX targetY mapData mapSize = [])"
  by (cases "findPathSearch e targetX targetY mapData mapSize")
     (simp_all add: findPath_def pathTo_chain)

lemma pointTile_centre_id [simp]: "pointTile \<circ> tileCentre = id"
  by (rule ext) simp



definition imp0 :: enemy where
  "imp0 = newEnemy 0 (1/2) (1/2) ''imp'' noStats 0 0"






text \<open>
  The enemy and the target on one tile: the start node is the goal node, it has no
  parent, and the path is empty.
\<close>

lemma findPath_same_tile:
  assumes "(\<lfloor>e_x e\<rfloor>, \<lfloor>e_y e\<rfloor>) = (\<lfloor>targetX\<rfloor>, \<lfloor>targetY\<rfloor>)"
  shows "findPath e targetX targetY mapData mapSize = []"
  using assms
  by (simp add: findPath_def findPathSearch_def Let_def findPathLoop.simps[of _ _ _ _ "[_]"])

section \<open>Enemy: behaviour (Enemy.update)\<close>

text \<open>
  \<^verbatim>\<open>Math.random()\<close> is the stream \<open>rnd\<close> read at a counter that every call advances, and
  \<^verbatim>\<open>Date.now()\<close> the stream \<open>clock\<close>, read the same way.  \<^verbatim>\<open>(deltaTime * 1000) || 16\<close>: a
  product that is zero is falsy.
\<close>

definition timerStep :: "real \<Rightarrow> real" where
  "timerStep deltaTime = (if deltaTime * 1000 = 0 then 16 else deltaTime * 1000)"

definition updateDirection :: "real \<Rightarrow> real \<Rightarrow> enemy \<Rightarrow> enemy" where
  "updateDirection dx dy e =
     (if \<bar>dx\<bar> > \<bar>dy\<bar> then e\<lparr>e_direction := (if dx > 0 then 3 else 2)\<rparr>
      else e\<lparr>e_direction := (if dy > 0 then 0 else 1)\<rparr>)"

definition facePlayer :: "real \<Rightarrow> real \<Rightarrow> enemy \<Rightarrow> enemy" where
  "facePlayer playerX playerY e =
     (let dx = playerX - e_x e; dy = playerY - e_y e in updateDirection dx dy e)"

text \<open>\<^verbatim>\<open>tryAttack()\<close> with the reading \<open>now\<close> of the clock: the damage dealt and the enemy after.\<close>

definition tryAttack :: "real \<Rightarrow> enemy \<Rightarrow> real \<times> enemy" where
  "tryAttack now e =
     (if now - e_lastAttackTime e \<ge> e_attackCooldown e
      then (e_damage e, e\<lparr>e_lastAttackTime := now\<rparr>)
      else (0, e))"

definition isValidPosition :: "real \<Rightarrow> real \<Rightarrow> nat list \<Rightarrow> int \<Rightarrow> bool" where
  "isValidPosition x y mapData mapSize =
     (let mapX = \<lfloor>x\<rfloor>; mapY = \<lfloor>y\<rfloor> in
      if mapX < 0 \<or> mapX \<ge> mapSize \<or> mapY < 0 \<or> mapY \<ge> mapSize then False
      else tileAt mapData (mapY * mapSize + mapX) = Some 0)"

text \<open>\<^verbatim>\<open>patrol\<close>: the enemy and the counter of \<open>rnd\<close> after the call.\<close>

definition patrol ::
  "(nat \<Rightarrow> real) \<Rightarrow> nat list \<Rightarrow> int \<Rightarrow> real \<Rightarrow> enemy \<Rightarrow> nat \<Rightarrow> enemy \<times> nat" where
  "patrol rnd mapData mapSize deltaTime e k =
     (let e1 = e\<lparr>e_patrolTimer := e_patrolTimer e + timerStep deltaTime\<rparr>;
          turn = (e_patrolTimer e1 \<ge> e_patrolChangeInterval e1);
          e2 = (if turn
                then e1\<lparr>e_patrolTimer := 0,
                        e_patrolDirection := rnd k * pi * 2,
                        e_patrolChangeInterval := 2000 + rnd (k + 1) * 2000\<rparr>
                else e1);
          k2 = (if turn then k + 2 else k);
          patrolSpeed = e_speed e2 * (3/10);
          moveSpeed = patrolSpeed * deltaTime;
          dirX = cos (e_patrolDirection e2);
          dirY = sin (e_patrolDirection e2);
          newX = e_x e2 + dirX * moveSpeed;
          newY = e_y e2 + dirY * moveSpeed
      in if isValidPosition newX newY mapData mapSize
         then (updateDirection dirX dirY (e2\<lparr>e_x := newX, e_y := newY\<rparr>), k2)
         else (e2\<lparr>e_patrolDirection := rnd k2 * pi * 2, e_patrolTimer := 0\<rparr>, k2 + 1))"

subsection \<open>The first waypoint of a fresh path is at least half a tile away\<close>

lemma findPath_first_tile:
  assumes "findPath e targetX targetY mapData mapSize = w # ws"
  shows "\<exists>t. w = tileCentre t \<and> adjacent (\<lfloor>e_x e\<rfloor>, \<lfloor>e_y e\<rfloor>) t"
proof -
  from findPath_cases[of e targetX targetY mapData mapSize] assms
  obtain nd where f: "findPathSearch e targetX targetY mapData mapSize = Found nd"
    and p: "w # ws = map tileCentre (chainTiles nd)" by auto
  from findPathSearch_found[OF f]
  have "validNode mapData mapSize (\<lfloor>e_x e\<rfloor>, \<lfloor>e_y e\<rfloor>) nd" by simp
  from chain_walk[OF this]
  have walk: "successively adjacent ((\<lfloor>e_x e\<rfloor>, \<lfloor>e_y e\<rfloor>) # chainTiles nd)" by simp
  from p obtain t ts where c: "chainTiles nd = t # ts" and w: "w = tileCentre t"
    by (cases "chainTiles nd") auto
  from walk c have "adjacent (\<lfloor>e_x e\<rfloor>, \<lfloor>e_y e\<rfloor>) t" by simp
  with w show ?thesis by blast
qed

lemma abs_le_sqrt_sum:
  fixes a b :: real
  shows "\<bar>a\<bar> \<le> sqrt (a * a + b * b)" "\<bar>b\<bar> \<le> sqrt (a * a + b * b)"
proof -
  have "sqrt (a * a) \<le> sqrt (a * a + b * b)" by (rule real_sqrt_le_mono) simp
  then show "\<bar>a\<bar> \<le> sqrt (a * a + b * b)" by simp
  have "sqrt (b * b) \<le> sqrt (a * a + b * b)" by (rule real_sqrt_le_mono) simp
  then show "\<bar>b\<bar> \<le> sqrt (a * a + b * b)" by simp
qed

lemma centre_of_adjacent_far:
  fixes x y :: real
  assumes "adjacent (\<lfloor>x\<rfloor>, \<lfloor>y\<rfloor>) t"
  shows "1/2 \<le> sqrt ((fst (tileCentre t) - x) * (fst (tileCentre t) - x)
                     + (snd (tileCentre t) - y) * (snd (tileCentre t) - y))"
proof -
  let ?dx = "fst (tileCentre t) - x" and ?dy = "snd (tileCentre t) - y"
  have fx: "real_of_int \<lfloor>x\<rfloor> \<le> x" "x < real_of_int \<lfloor>x\<rfloor> + 1"
    and fy: "real_of_int \<lfloor>y\<rfloor> \<le> y" "y < real_of_int \<lfloor>y\<rfloor> + 1" by linarith+
  from assms have "\<bar>\<lfloor>x\<rfloor> - fst t\<bar> + \<bar>\<lfloor>y\<rfloor> - snd t\<bar> = 1" by (simp add: adjacent_def)
  then have c: "fst t \<ge> \<lfloor>x\<rfloor> + 1 \<or> fst t \<le> \<lfloor>x\<rfloor> - 1 \<or> snd t \<ge> \<lfloor>y\<rfloor> + 1 \<or> snd t \<le> \<lfloor>y\<rfloor> - 1"
    by linarith
  have dx: "?dx = real_of_int (fst t) + 1/2 - x" and dy: "?dy = real_of_int (snd t) + 1/2 - y"
    by (simp_all add: tileCentre_def)
  from c have "1/2 \<le> \<bar>?dx\<bar> \<or> 1/2 \<le> \<bar>?dy\<bar>"
  proof (elim disjE)
    assume "fst t \<ge> \<lfloor>x\<rfloor> + 1"
    then have "real_of_int (fst t) \<ge> real_of_int \<lfloor>x\<rfloor> + 1" by linarith
    then show ?thesis unfolding dx using fx by linarith
  next
    assume "fst t \<le> \<lfloor>x\<rfloor> - 1"
    then have "real_of_int (fst t) \<le> real_of_int \<lfloor>x\<rfloor> - 1" by linarith
    then show ?thesis unfolding dx using fx by linarith
  next
    assume "snd t \<ge> \<lfloor>y\<rfloor> + 1"
    then have "real_of_int (snd t) \<ge> real_of_int \<lfloor>y\<rfloor> + 1" by linarith
    then show ?thesis unfolding dy using fy by linarith
  next
    assume "snd t \<le> \<lfloor>y\<rfloor> - 1"
    then have "real_of_int (snd t) \<le> real_of_int \<lfloor>y\<rfloor> - 1" by linarith
    then show ?thesis unfolding dy using fy by linarith
  qed
  moreover have "\<bar>?dx\<bar> \<le> sqrt (?dx * ?dx + ?dy * ?dy)"
    by (rule abs_le_sqrt_sum)
  moreover have "\<bar>?dy\<bar> \<le> sqrt (?dx * ?dx + ?dy * ?dy)"
    by (rule abs_le_sqrt_sum)
  ultimately show ?thesis by linarith
qed

lemma findPath_first_far:
  assumes "findPath e targetX targetY mapData mapSize = w # ws"
  shows "1/2 \<le> sqrt ((fst w - e_x e) * (fst w - e_x e) + (snd w - e_y e) * (snd w - e_y e))"
proof -
  from findPath_first_tile[OF assms]
  obtain t where "w = tileCentre t" "adjacent (\<lfloor>e_x e\<rfloor>, \<lfloor>e_y e\<rfloor>) t" by blast
  then show ?thesis using centre_of_adjacent_far[of "e_x e" "e_y e" t] by simp
qed

subsection \<open>chasePlayer\<close>

text \<open>
  \<^verbatim>\<open>chasePlayer\<close> calls itself after \<^verbatim>\<open>path.shift()\<close> when the first waypoint is nearer
  than 0.3.  One value of \<open>rnd\<close> is read for the debug log before a move.
\<close>

function chasePlayer ::
  "(nat \<Rightarrow> real) \<Rightarrow> real \<Rightarrow> real \<Rightarrow> nat list \<Rightarrow> int \<Rightarrow> real \<Rightarrow> enemy \<Rightarrow> nat \<Rightarrow> enemy \<times> nat" where
  "chasePlayer rnd playerX playerY mapData mapSize deltaTime e k =
     (let e1 = e\<lparr>e_pathUpdateTimer := e_pathUpdateTimer e + timerStep deltaTime\<rparr>;
          e2 = (if e_pathUpdateTimer e1 \<ge> e_pathUpdateInterval e1 \<or> e_path e1 = []
                then e1\<lparr>e_pathUpdateTimer := 0,
                        e_path := findPath e1 playerX playerY mapData mapSize\<rparr>
                else e1)
      in case e_path e2 of
           [] \<Rightarrow> (e2, k)
         | waypoint # rest \<Rightarrow>
             (let dx = fst waypoint - e_x e2;
                  dy = snd waypoint - e_y e2;
                  distance = sqrt (dx * dx + dy * dy)
              in if distance < 3/10 then
                   (if rest = [] then (e2\<lparr>e_path := rest\<rparr>, k)
                    else chasePlayer rnd playerX playerY mapData mapSize deltaTime
                           (e2\<lparr>e_path := rest\<rparr>) k)
                 else
                   (let dirX = dx / distance;
                        dirY = dy / distance;
                        moveSpeed = e_speed e2 * deltaTime;
                        newX = e_x e2 + dirX * moveSpeed;
                        newY = e_y e2 + dirY * moveSpeed
                    in if isValidPosition newX newY mapData mapSize
                       then (updateDirection dirX dirY (e2\<lparr>e_x := newX, e_y := newY\<rparr>), k + 1)
                       else (e2, k + 1))))"
  by pat_completeness auto
termination
proof (relation "measure (\<lambda>(rnd, playerX, playerY, mapData, mapSize, deltaTime, e, k).
    length (e_path e))", goal_cases)
  case 1
  then show ?case by simp
next
  case (2 rnd playerX playerY mapData mapSize deltaTime e k e1 e2 waypoint rest dx dy distance)
  show ?case
  proof (cases "e_pathUpdateTimer e1 \<ge> e_pathUpdateInterval e1 \<or> e_path e1 = []")
    case True
    with 2 have "findPath e1 playerX playerY mapData mapSize = waypoint # rest" by simp
    from findPath_first_far[OF this] have "1/2 \<le> distance" using 2 True by simp
    with 2 show ?thesis by simp
  next
    case False
    with 2 have "e_path e = waypoint # rest" by simp
    then show ?thesis by simp
  qed
qed

declare chasePlayer.simps [simp del]

subsection \<open>update\<close>

text \<open>
  \<^verbatim>\<open>Enemy.update\<close>: the enemy and the counters of \<open>rnd\<close> and \<open>clock\<close> after the call.  The
  \<^verbatim>\<open>ATTACK\<close> branch calls \<^verbatim>\<open>tryAttack()\<close> and drops the number it returns.
\<close>

definition update ::
  "(nat \<Rightarrow> real) \<Rightarrow> (nat \<Rightarrow> real) \<Rightarrow> real \<Rightarrow> real \<Rightarrow> nat list \<Rightarrow> int \<Rightarrow> real
     \<Rightarrow> enemy \<times> nat \<times> nat \<Rightarrow> enemy \<times> nat \<times> nat" where
  "update rnd clock playerX playerY mapData mapSize deltaTime s =
     (let e = fst s; k = fst (snd s); c = snd (snd s) in
      if e_state e = DEAD then (e, k, c)
      else
        (let distanceToPlayer = getDistance e playerX playerY in
         case e_state e of
           IDLE \<Rightarrow>
             if distanceToPlayer < e_detectionRange e
                \<and> hasLineOfSight e playerX playerY mapData mapSize
             then (e\<lparr>e_state := CHASE\<rparr>, k, c)
             else (let r = patrol rnd mapData mapSize deltaTime e k in (fst r, snd r, c))
         | CHASE \<Rightarrow>
             if distanceToPlayer > e_detectionRange e * (3/2) then (e\<lparr>e_state := IDLE\<rparr>, k, c)
             else if distanceToPlayer < e_attackRange e then (e\<lparr>e_state := ATTACK\<rparr>, k, c)
             else if hasLineOfSight e playerX playerY mapData mapSize
             then (let r = chasePlayer rnd playerX playerY mapData mapSize deltaTime e k
                   in (fst r, snd r, c))
             else (e, k, c)
         | ATTACK \<Rightarrow>
             if distanceToPlayer > e_attackRange e * (6/5) then (e\<lparr>e_state := CHASE\<rparr>, k, c)
             else (snd (tryAttack (clock c) (facePlayer playerX playerY e)), k, c + 1)
         | DEAD \<Rightarrow> (e, k, c)))"

section \<open>EnemyManager\<close>

text \<open>
  The callback of \<^verbatim>\<open>this.enemies.forEach\<close> in \<^verbatim>\<open>EnemyManager.update\<close>: the running total,
  the enemies already visited, and the two counters.
\<close>

definition enemyTick ::
  "(nat \<Rightarrow> real) \<Rightarrow> (nat \<Rightarrow> real) \<Rightarrow> real \<Rightarrow> real \<Rightarrow> nat list \<Rightarrow> int \<Rightarrow> real
     \<Rightarrow> real \<times> enemy list \<times> nat \<times> nat \<Rightarrow> enemy \<Rightarrow> real \<times> enemy list \<times> nat \<times> nat" where
  "enemyTick rnd clock playerX playerY mapData mapSize deltaTime acc enemy =
     (let totalDamage = fst acc; visited = fst (snd acc);
          k = fst (snd (snd acc)); c = snd (snd (snd acc)) in
      if isAlive enemy then
        (let u = update rnd clock playerX playerY mapData mapSize deltaTime (enemy, k, c);
             e1 = fst u; k1 = fst (snd u); c1 = snd (snd u)
         in if e_state e1 = ATTACK
            then (let a = tryAttack (clock c1) e1
                  in (totalDamage + fst a, visited @ [snd a], k1, c1 + 1))
            else (totalDamage, visited @ [e1], k1, c1))
      else (totalDamage, visited @ [enemy], k, c))"

text \<open>
  \<^verbatim>\<open>EnemyManager.update\<close>: the total damage it returns, and the enemies and the counters
  after the call.
\<close>

definition managerUpdate ::
  "(nat \<Rightarrow> real) \<Rightarrow> (nat \<Rightarrow> real) \<Rightarrow> real \<Rightarrow> real \<Rightarrow> nat list \<Rightarrow> int \<Rightarrow> real
     \<Rightarrow> enemy list \<times> nat \<times> nat \<Rightarrow> real \<times> enemy list \<times> nat \<times> nat" where
  "managerUpdate rnd clock playerX playerY mapData mapSize deltaTime m =
     foldl (enemyTick rnd clock playerX playerY mapData mapSize deltaTime)
       (0, [], fst (snd m), snd (snd m)) (fst m)"

definition getAliveEnemies :: "enemy list \<Rightarrow> enemy list" where
  "getAliveEnemies enemies = filter isAlive enemies"

section \<open>C5: health and death of an enemy\<close>

subsection \<open>What the behaviour leaves alone\<close>

lemma updateDirection_keeps [simp]:
  "e_health (updateDirection dx dy e) = e_health e"
  "e_maxHealth (updateDirection dx dy e) = e_maxHealth e"
  "e_state (updateDirection dx dy e) = e_state e"
  "e_x (updateDirection dx dy e) = e_x e"
  "e_y (updateDirection dx dy e) = e_y e"
  by (simp_all add: updateDirection_def)

lemma patrol_keeps:
  "e_health (fst (patrol rnd mapData mapSize deltaTime e k)) = e_health e"
  "e_maxHealth (fst (patrol rnd mapData mapSize deltaTime e k)) = e_maxHealth e"
  "e_state (fst (patrol rnd mapData mapSize deltaTime e k)) = e_state e"
  by (simp_all add: patrol_def Let_def)

lemma chasePlayer_keeps:
  "e_health (fst (chasePlayer rnd playerX playerY mapData mapSize deltaTime e k)) = e_health e
   \<and> e_maxHealth (fst (chasePlayer rnd playerX playerY mapData mapSize deltaTime e k)) = e_maxHealth e
   \<and> e_state (fst (chasePlayer rnd playerX playerY mapData mapSize deltaTime e k)) = e_state e"
proof (induction rnd playerX playerY mapData mapSize deltaTime e k rule: chasePlayer.induct)
  case (1 rnd playerX playerY mapData mapSize deltaTime e k)
  let ?e1 = "e\<lparr>e_pathUpdateTimer := e_pathUpdateTimer e + timerStep deltaTime\<rparr>"
  let ?e2 = "if e_pathUpdateTimer ?e1 \<ge> e_pathUpdateInterval ?e1 \<or> e_path ?e1 = []
             then ?e1\<lparr>e_pathUpdateTimer := 0,
                     e_path := findPath ?e1 playerX playerY mapData mapSize\<rparr>
             else ?e1"
  have k2: "e_health ?e2 = e_health e" "e_maxHealth ?e2 = e_maxHealth e" "e_state ?e2 = e_state e"
    by simp_all
  show ?case
  proof (cases "e_path ?e2")
    case Nil
    then show ?thesis
      by (subst (1 2 3) chasePlayer.simps) (simp add: Let_def)
  next
    case (Cons waypoint rest)
    let ?d = "sqrt ((fst waypoint - e_x ?e2) * (fst waypoint - e_x ?e2)
                  + (snd waypoint - e_y ?e2) * (snd waypoint - e_y ?e2))"
    show ?thesis
    proof (cases "?d < 3/10 \<and> rest \<noteq> []")
      case True
      then have near: "?d < 3/10" and more: "rest \<noteq> []" by simp_all
      note ih = "1.IH"[OF refl refl Cons refl refl refl near more]
      have step: "chasePlayer rnd playerX playerY mapData mapSize deltaTime e k
          = chasePlayer rnd playerX playerY mapData mapSize deltaTime (?e2\<lparr>e_path := rest\<rparr>) k"
        using Cons near more
        by (subst chasePlayer.simps) (simp add: Let_def)
      show ?thesis unfolding step using ih by simp
    next
      case False
      then show ?thesis using Cons
        by (subst (1 2 3) chasePlayer.simps) (auto simp add: Let_def)
    qed
  qed
qed

lemma tryAttack_keeps [simp]:
  "e_health (snd (tryAttack now e)) = e_health e"
  "e_maxHealth (snd (tryAttack now e)) = e_maxHealth e"
  "e_state (snd (tryAttack now e)) = e_state e"
  "e_x (snd (tryAttack now e)) = e_x e"
  "e_y (snd (tryAttack now e)) = e_y e"
  by (simp_all add: tryAttack_def)

lemma facePlayer_keeps [simp]:
  "e_health (facePlayer playerX playerY e) = e_health e"
  "e_maxHealth (facePlayer playerX playerY e) = e_maxHealth e"
  "e_state (facePlayer playerX playerY e) = e_state e"
  by (simp_all add: facePlayer_def Let_def)

lemma update_dead:
  "e_state e = DEAD \<Longrightarrow>
     update rnd clock playerX playerY mapData mapSize deltaTime (e, k, c) = (e, k, c)"
  by (simp add: update_def)

lemma update_keeps:
  "e_health (fst (update rnd clock playerX playerY mapData mapSize deltaTime (e, k, c))) = e_health e
   \<and> e_maxHealth (fst (update rnd clock playerX playerY mapData mapSize deltaTime (e, k, c)))
       = e_maxHealth e
   \<and> (e_state (fst (update rnd clock playerX playerY mapData mapSize deltaTime (e, k, c))) = DEAD
        \<longleftrightarrow> e_state e = DEAD)"
  by (cases "e_state e")
     (simp_all add: update_def Let_def patrol_keeps chasePlayer_keeps)

lemma takeDamage_dead: "e_state e = DEAD \<Longrightarrow> takeDamage amount e = (False, e)"
  by (simp add: takeDamage_def)

subsection \<open>Sequences of calls\<close>

text \<open>
  A call on an enemy: \<^verbatim>\<open>update(playerX, playerY, mapData, mapSize, deltaTime)\<close>,
  \<^verbatim>\<open>takeDamage(amount)\<close> or \<^verbatim>\<open>tryAttack()\<close>; and a sequence of calls, from an enemy and the
  counters of \<open>rnd\<close> and \<open>clock\<close>.
\<close>

datatype call = Update real real "nat list" int real | TakeDamage real | TryAttack

fun applyCall ::
  "(nat \<Rightarrow> real) \<Rightarrow> (nat \<Rightarrow> real) \<Rightarrow> enemy \<times> nat \<times> nat \<Rightarrow> call \<Rightarrow> enemy \<times> nat \<times> nat" where
  "applyCall rnd clock s (Update playerX playerY mapData mapSize deltaTime) =
     update rnd clock playerX playerY mapData mapSize deltaTime s"
| "applyCall rnd clock s (TakeDamage amount) =
     (snd (takeDamage amount (fst s)), fst (snd s), snd (snd s))"
| "applyCall rnd clock s TryAttack =
     (snd (tryAttack (clock (snd (snd s))) (fst s)), fst (snd s), snd (snd s) + 1)"

definition run ::
  "(nat \<Rightarrow> real) \<Rightarrow> (nat \<Rightarrow> real) \<Rightarrow> call list \<Rightarrow> enemy \<times> nat \<times> nat \<Rightarrow> enemy \<times> nat \<times> nat" where
  "run rnd clock calls s = foldl (applyCall rnd clock) s calls"

definition healthOk :: "enemy \<Rightarrow> bool" where
  "healthOk e = (0 \<le> e_health e \<and> e_health e \<le> e_maxHealth e
                 \<and> (e_state e = DEAD) = (e_health e = 0))"

lemma newEnemy_healthOk:
  assumes "\<forall>h. s_health st = Some h \<longrightarrow> 0 \<le> h"
  shows "healthOk (newEnemy i x y ty st r1 r2)"
proof (cases "s_health st")
  case None
  then show ?thesis by (simp add: healthOk_def newEnemy_def orDefault_def)
next
  case (Some h)
  with assms have "0 \<le> h" by simp
  with Some show ?thesis by (simp add: healthOk_def newEnemy_def orDefault_def)
qed

lemma takeDamage_healthOk:
  assumes "healthOk e" "0 \<le> amount"
  shows "healthOk (snd (takeDamage amount e))"
  using assms by (auto simp add: healthOk_def takeDamage_def Let_def)

lemma applyCall_healthOk:
  assumes "healthOk (fst s)" "\<forall>a. cl = TakeDamage a \<longrightarrow> 0 \<le> a"
  shows "healthOk (fst (applyCall rnd clock s cl))"
proof (cases cl)
  case (Update playerX playerY mapData mapSize deltaTime)
  obtain e k c where s: "s = (e, k, c)" by (cases s)
  from update_keeps[of rnd clock playerX playerY mapData mapSize deltaTime e k c] assms(1)
  show ?thesis unfolding Update s by (simp add: healthOk_def)
next
  case (TakeDamage a)
  with assms show ?thesis by (simp add: takeDamage_healthOk)
next
  case TryAttack
  with assms(1) show ?thesis by (simp add: healthOk_def)
qed

lemma run_healthOk:
  "healthOk (fst s) \<Longrightarrow> \<forall>a. TakeDamage a \<in> set calls \<longrightarrow> 0 \<le> a
     \<Longrightarrow> healthOk (fst (run rnd clock calls s))"
  unfolding run_def
proof (induction calls arbitrary: s)
  case Nil
  then show ?case by simp
next
  case (Cons cl calls)
  have "healthOk (fst (applyCall rnd clock s cl))"
    by (rule applyCall_healthOk) (use Cons.prems in auto)
  from Cons.IH[OF this] Cons.prems(2) show ?case by simp
qed

text \<open>What no call changes on a dead enemy.\<close>

definition sameCorpse :: "enemy \<Rightarrow> enemy \<Rightarrow> bool" where
  "sameCorpse d e = (e_state e = DEAD \<and> e_x e = e_x d \<and> e_y e = e_y d \<and> e_health e = e_health d)"

lemma applyCall_corpse:
  assumes "sameCorpse d (fst s)"
  shows "sameCorpse d (fst (applyCall rnd clock s cl))"
proof (cases cl)
  case (Update playerX playerY mapData mapSize deltaTime)
  obtain e k c where s: "s = (e, k, c)" by (cases s)
  with assms have "e_state e = DEAD" by (simp add: sameCorpse_def)
  from update_dead[OF this] assms show ?thesis unfolding Update s by simp
next
  case (TakeDamage a)
  from assms have "e_state (fst s) = DEAD" by (simp add: sameCorpse_def)
  from takeDamage_dead[OF this] assms show ?thesis unfolding TakeDamage by simp
next
  case TryAttack
  with assms show ?thesis by (simp add: sameCorpse_def)
qed

lemma run_corpse:
  "sameCorpse d (fst s) \<Longrightarrow> sameCorpse d (fst (run rnd clock calls s))"
  unfolding run_def
proof (induction calls arbitrary: s)
  case Nil
  then show ?case by simp
next
  case (Cons cl calls)
  from Cons.IH[OF applyCall_corpse[OF Cons.prems]] show ?case by simp
qed

lemma getAliveEnemies_alive: "e \<in> set (getAliveEnemies enemies) \<Longrightarrow> e_state e \<noteq> DEAD"
  by (simp add: getAliveEnemies_def isAlive_def)
subsection \<open>The claim as it is written fails\<close>

text \<open>
  C5, as written: an enemy built from a negative health stat has negative health, and a
  negative amount of damage lifts the health of the default enemy (50 of 50) to 60.
\<close>

theorem C5_counterexample:
  "e_health (newEnemy 0 (1/2) (1/2) ''imp'' (noStats\<lparr>s_health := Some (- 5)\<rparr>) 0 0) < 0
   \<and> e_health (snd (takeDamage (- 10) imp0)) > e_maxHealth (snd (takeDamage (- 10) imp0))"
  by (simp add: newEnemy_def noStats_def orDefault_def takeDamage_def imp0_def Let_def)

subsection \<open>The invariant\<close>

text \<open>
  C5, amended.  For an enemy built from a health stat that is absent or not negative,
  after any sequence of \<^verbatim>\<open>update\<close>, \<^verbatim>\<open>takeDamage\<close> and \<^verbatim>\<open>tryAttack\<close> calls whose damage
  amounts are not negative: the health lies between 0 and \<^verbatim>\<open>maxHealth\<close>, and the state is
  \<^verbatim>\<open>DEAD\<close> exactly when the health is 0.  For a dead enemy \<open>d\<close>, whatever the calls: the
  state, the position and the health stay as they are, \<^verbatim>\<open>takeDamage\<close> returns false and
  changes nothing, \<^verbatim>\<open>update\<close> changes nothing, and \<^verbatim>\<open>getAliveEnemies\<close> does not list it.
\<close>

theorem C5_health_and_death:
  assumes "\<forall>h. s_health st = Some h \<longrightarrow> 0 \<le> h"
    and "\<forall>a. TakeDamage a \<in> set calls \<longrightarrow> 0 \<le> a"
  shows "0 \<le> e_health (fst (run rnd clock calls (newEnemy i x y ty st r1 r2, k, c)))
     \<and> e_health (fst (run rnd clock calls (newEnemy i x y ty st r1 r2, k, c)))
         \<le> e_maxHealth (fst (run rnd clock calls (newEnemy i x y ty st r1 r2, k, c)))
     \<and> (e_state (fst (run rnd clock calls (newEnemy i x y ty st r1 r2, k, c))) = DEAD)
         = (e_health (fst (run rnd clock calls (newEnemy i x y ty st r1 r2, k, c))) = 0)
     \<and> (e_state d = DEAD \<longrightarrow>
           e_state (fst (run rnd clock others (d, k, c))) = DEAD
         \<and> e_x (fst (run rnd clock others (d, k, c))) = e_x d
         \<and> e_y (fst (run rnd clock others (d, k, c))) = e_y d
         \<and> e_health (fst (run rnd clock others (d, k, c))) = e_health d
         \<and> takeDamage amount d = (False, d)
         \<and> update rnd clock playerX playerY mapData mapSize deltaTime (d, k, c) = (d, k, c)
         \<and> d \<notin> set (getAliveEnemies enemies))"
proof -
  have "healthOk (fst (run rnd clock calls (newEnemy i x y ty st r1 r2, k, c)))"
    by (rule run_healthOk) (use assms newEnemy_healthOk in simp_all)
  then have alive: "0 \<le> e_health (fst (run rnd clock calls (newEnemy i x y ty st r1 r2, k, c)))
     \<and> e_health (fst (run rnd clock calls (newEnemy i x y ty st r1 r2, k, c)))
         \<le> e_maxHealth (fst (run rnd clock calls (newEnemy i x y ty st r1 r2, k, c)))
     \<and> (e_state (fst (run rnd clock calls (newEnemy i x y ty st r1 r2, k, c))) = DEAD)
         = (e_health (fst (run rnd clock calls (newEnemy i x y ty st r1 r2, k, c))) = 0)"
    by (simp add: healthOk_def)
  have dead: "e_state (fst (run rnd clock others (d, k, c))) = DEAD
         \<and> e_x (fst (run rnd clock others (d, k, c))) = e_x d
         \<and> e_y (fst (run rnd clock others (d, k, c))) = e_y d
         \<and> e_health (fst (run rnd clock others (d, k, c))) = e_health d
         \<and> takeDamage amount d = (False, d)
         \<and> update rnd clock playerX playerY mapData mapSize deltaTime (d, k, c) = (d, k, c)
         \<and> d \<notin> set (getAliveEnemies enemies)" if d: "e_state d = DEAD"
  proof -
    have "sameCorpse d (fst (d, k, c))" using d by (simp add: sameCorpse_def)
    from run_corpse[OF this, of rnd clock others]
    have "sameCorpse d (fst (run rnd clock others (d, k, c)))" .
    then show ?thesis
      using d takeDamage_dead[OF d] update_dead[OF d] getAliveEnemies_alive[of d enemies]
      by (auto simp add: sameCorpse_def)
  qed
  from alive dead show ?thesis by blast
qed

text \<open>
  The default enemy (health 50) is hit for 20 and starts to chase, loses a player who is
  13 tiles away, and is hit for 30: it is dead with health 0, and a further hit, update
  and attack leave it where it is.
\<close>

definition corpse0 :: enemy where
  "corpse0 = snd (takeDamage 50 imp0)"

lemma sqrt_169: "sqrt 169 = 13"
  by (rule real_sqrt_unique) simp_all

lemma corpse0_dead: "e_state corpse0 = DEAD" "e_health corpse0 = 0" "e_x corpse0 = 1/2"
  by (simp_all add: corpse0_def takeDamage_def imp0_def newEnemy_def noStats_def orDefault_def
      Let_def)

lemma run_imp0:
  "fst (run rnd clock [TakeDamage 20, Update (27/2) (1/2) floor5 5 (2/125), TakeDamage 30]
         (imp0, 0, 0))
   = imp0\<lparr>e_health := 0, e_state := DEAD\<rparr>"
  by (simp add: run_def takeDamage_def update_def getDistance_def Let_def imp0_def newEnemy_def
      noStats_def orDefault_def sqrt_169)

theorem C5_witness:
  "fst (run (\<lambda>n. 0) (\<lambda>n. 0)
          [TakeDamage 20, Update (27/2) (1/2) floor5 5 (2/125), TakeDamage 30] (imp0, 0, 0))
     = imp0\<lparr>e_health := 0, e_state := DEAD\<rparr>
   \<and> 0 \<le> e_health (fst (run (\<lambda>n. 0) (\<lambda>n. 0)
          [TakeDamage 20, Update (27/2) (1/2) floor5 5 (2/125), TakeDamage 30] (imp0, 0, 0)))
   \<and> e_health (fst (run (\<lambda>n. 0) (\<lambda>n. 0)
          [TakeDamage 20, Update (27/2) (1/2) floor5 5 (2/125), TakeDamage 30] (imp0, 0, 0)))
       \<le> e_maxHealth (fst (run (\<lambda>n. 0) (\<lambda>n. 0)
          [TakeDamage 20, Update (27/2) (1/2) floor5 5 (2/125), TakeDamage 30] (imp0, 0, 0)))
   \<and> e_state corpse0 = DEAD
   \<and> e_state (fst (run (\<lambda>n. 0) (\<lambda>n. 0)
          [TakeDamage 5, Update (3/2) (1/2) floor5 5 (2/125), TryAttack] (corpse0, 0, 0))) = DEAD
   \<and> e_x (fst (run (\<lambda>n. 0) (\<lambda>n. 0)
          [TakeDamage 5, Update (3/2) (1/2) floor5 5 (2/125), TryAttack] (corpse0, 0, 0)))
       = e_x corpse0
   \<and> e_health (fst (run (\<lambda>n. 0) (\<lambda>n. 0)
          [TakeDamage 5, Update (3/2) (1/2) floor5 5 (2/125), TryAttack] (corpse0, 0, 0)))
       = e_health corpse0
   \<and> takeDamage 5 corpse0 = (False, corpse0)
   \<and> update (\<lambda>n. 0) (\<lambda>n. 0) (3/2) (1/2) floor5 5 (2/125) (corpse0, 0, 0) = (corpse0, 0, 0)
   \<and> corpse0 \<notin> set (getAliveEnemies [imp0, corpse0])"
proof -
  have h1: "\<forall>h. s_health noStats = Some h \<longrightarrow> 0 \<le> h" by (simp add: noStats_def)
  have h2: "\<forall>a. TakeDamage a
      \<in> set [TakeDamage 20, Update (27/2) (1/2) floor5 5 (2/125), TakeDamage 30] \<longrightarrow> 0 \<le> a"
    by simp
  have d: "e_state corpse0 = DEAD" by (rule corpse0_dead)
  note th = C5_health_and_death[OF h1 h2, of "\<lambda>n. 0" "\<lambda>n. 0" 0 "1/2" "1/2" "''imp''" 0 0 0 0
      corpse0 "[TakeDamage 5, Update (3/2) (1/2) floor5 5 (2/125), TryAttack]" 5
      "3/2" "1/2" floor5 5 "2/125" "[imp0, corpse0]"]
  from th[folded imp0_def] d run_imp0[of "\<lambda>n. 0" "\<lambda>n. 0"] show ?thesis by blast
qed

section \<open>C1: the damage of an attacking enemy\<close>

text \<open>
  One enemy of the \<^verbatim>\<open>forEach\<close> that is in state \<^verbatim>\<open>ATTACK\<close> when the tick starts and stays
  within the range of the state: \<^verbatim>\<open>Enemy.update\<close> makes the attack whose cooldown has
  elapsed and drops its damage, and the attack of the manager, made at the next reading
  of the clock, is on cooldown.  The total is not raised.
\<close>

lemma attack_tick_no_damage:
  assumes "e_state e = ATTACK"
    and "\<not> getDistance e playerX playerY > e_attackRange e * (6/5)"
    and "clock c - e_lastAttackTime e \<ge> e_attackCooldown e"
    and "clock (c + 1) - clock c < e_attackCooldown e"
  shows "enemyTick rnd clock playerX playerY mapData mapSize deltaTime
           (totalDamage, visited, k, c) e
         = (totalDamage, visited @ [(facePlayer playerX playerY e)\<lparr>e_lastAttackTime := clock c\<rparr>],
            k, c + 2)"
proof -
  let ?f = "facePlayer playerX playerY e"
  have f: "e_lastAttackTime ?f = e_lastAttackTime e" "e_attackCooldown ?f = e_attackCooldown e"
    by (simp_all add: facePlayer_def updateDirection_def Let_def)
  have first: "tryAttack (clock c) ?f = (e_damage ?f, ?f\<lparr>e_lastAttackTime := clock c\<rparr>)"
    using assms(3) f by (simp add: tryAttack_def)
  have u: "update rnd clock playerX playerY mapData mapSize deltaTime (e, k, c)
             = (?f\<lparr>e_lastAttackTime := clock c\<rparr>, k, c + 1)"
    using assms(1,2) first by (simp add: update_def Let_def)
  have second: "tryAttack (clock (c + 1)) (?f\<lparr>e_lastAttackTime := clock c\<rparr>)
             = (0, ?f\<lparr>e_lastAttackTime := clock c\<rparr>)"
    using assms(4) f by (simp add: tryAttack_def)
  show ?thesis
    using assms(1) u second by (simp add: enemyTick_def Let_def isAlive_def)
qed

text \<open>
  An enemy that is chasing and comes within its attack range: \<^verbatim>\<open>Enemy.update\<close> only
  changes the state, and the attack of the manager lands.
\<close>

lemma chase_to_attack_tick:
  assumes "e_state e = CHASE"
    and "\<not> getDistance e playerX playerY > e_detectionRange e * (3/2)"
    and "getDistance e playerX playerY < e_attackRange e"
    and "clock c - e_lastAttackTime e \<ge> e_attackCooldown e"
  shows "enemyTick rnd clock playerX playerY mapData mapSize deltaTime
           (totalDamage, visited, k, c) e
         = (totalDamage + e_damage e,
            visited @ [e\<lparr>e_state := ATTACK, e_lastAttackTime := clock c\<rparr>], k, c + 1)"
  using assms by (simp add: enemyTick_def update_def tryAttack_def Let_def isAlive_def)

text \<open>
  The default enemy (damage 10, attack range 1.5, cooldown 1000 ms) one tile away from
  the player on a 5 by 5 floor grid, in state \<^verbatim>\<open>ATTACK\<close>, its last attack at time 1000.
  The clock reads 2500, then 2501.
\<close>

definition brute :: enemy where
  "brute = (newEnemy 0 (3/2) (3/2) ''orc'' noStats 0 0)\<lparr>e_state := ATTACK, e_lastAttackTime := 1000\<rparr>"

definition clockFrom :: "real \<Rightarrow> nat \<Rightarrow> real" where
  "clockFrom t n = t + real n"

lemma brute_fields:
  "e_state brute = ATTACK" "e_x brute = 3/2" "e_y brute = 3/2" "e_attackRange brute = 3/2"
  "e_attackCooldown brute = 1000" "e_lastAttackTime brute = 1000" "e_damage brute = 10"
  by (simp_all add: brute_def newEnemy_def noStats_def orDefault_def)

lemma brute_distance: "getDistance brute (5/2) (3/2) = 1"
  by (simp add: getDistance_def Let_def brute_fields)

text \<open>
  C1 at this input: the enemy is in state \<^verbatim>\<open>ATTACK\<close>, within its attack range, and its
  cooldown has elapsed when the tick starts, and the total that \<^verbatim>\<open>EnemyManager.update\<close>
  returns is 0, not the damage 10 of the enemy: the attack was spent inside
  \<^verbatim>\<open>Enemy.update\<close>, which set the last attack time to 2500.
\<close>

theorem C1_attack_damage_dropped:
  "e_state brute = ATTACK
   \<and> getDistance brute (5/2) (3/2) < e_attackRange brute
   \<and> clockFrom 2500 0 - e_lastAttackTime brute \<ge> e_attackCooldown brute
   \<and> e_damage brute = 10
   \<and> managerUpdate (\<lambda>n. 0) (clockFrom 2500) (5/2) (3/2) floor5 5 (2/125) ([brute], 0, 0)
       = (0, [brute\<lparr>e_lastAttackTime := 2500, e_direction := 3\<rparr>], 0, 2)"
proof -
  have t: "enemyTick (\<lambda>n. 0) (clockFrom 2500) (5/2) (3/2) floor5 5 (2/125) (0, [], 0, 0) brute
      = (0, [] @ [(facePlayer (5/2) (3/2) brute)\<lparr>e_lastAttackTime := clockFrom 2500 0\<rparr>], 0, 0 + 2)"
    by (rule attack_tick_no_damage)
       (simp_all add: brute_fields brute_distance clockFrom_def)
  have f: "(facePlayer (5/2) (3/2) brute)\<lparr>e_lastAttackTime := clockFrom 2500 0\<rparr>
      = brute\<lparr>e_lastAttackTime := 2500, e_direction := 3\<rparr>"
    by (simp add: facePlayer_def updateDirection_def Let_def brute_fields clockFrom_def)
  show ?thesis
    using t f by (simp add: managerUpdate_def brute_fields brute_distance clockFrom_def)
qed

text \<open>
  How the enemy gets there.  Freshly built beside the player, it sees the player in its
  first tick and starts to chase; in its second tick it is within its attack range, the
  state becomes \<^verbatim>\<open>ATTACK\<close> and the attack of the manager, at time 1000, deals the damage 10.
\<close>

definition recruit :: enemy where
  "recruit = newEnemy 0 (3/2) (3/2) ''orc'' noStats 0 0"

lemma recruit_fields:
  "e_state recruit = IDLE" "e_x recruit = 3/2" "e_y recruit = 3/2" "e_attackRange recruit = 3/2"
  "e_attackCooldown recruit = 1000" "e_lastAttackTime recruit = 0" "e_damage recruit = 10"
  "e_detectionRange recruit = 8"
  by (simp_all add: recruit_def newEnemy_def noStats_def orDefault_def)

lemma recruit_distance: "getDistance recruit (5/2) (3/2) = 1"
  by (simp add: getDistance_def Let_def recruit_fields)

lemma recruit_sees: "hasLineOfSight recruit (5/2) (3/2) floor5 5"
proof -
  have two: "(\<forall>j::nat. j < 2 \<longrightarrow> P j) = (P 0 \<and> P 1)" for P
    by (auto simp add: less_Suc_eq eval_nat_numeral)
  have f: "\<lfloor>3/2::real\<rfloor> = 1" "\<lfloor>2::real\<rfloor> = 2" by linarith+
  have c: "sampleClear floor5 5 (3/2) (3/2)" "sampleClear floor5 5 2 (3/2)"
    by (simp_all add: sampleClear_def Let_def f tileAt_floor5)
  show ?thesis
    unfolding hasLineOfSight_def Let_def losLoop_iff recruit_fields
    using c by (simp add: two)
qed

lemma recruit_first_tick:
  "managerUpdate rnd clock (5/2) (3/2) floor5 5 deltaTime ([recruit], k, c)
     = (0, [recruit\<lparr>e_state := CHASE\<rparr>], k, c)"
  by (simp add: managerUpdate_def enemyTick_def update_def Let_def isAlive_def
      recruit_fields recruit_distance recruit_sees)

lemma recruit_second_tick:
  "managerUpdate rnd (clockFrom 1000) (5/2) (3/2) floor5 5 deltaTime
       ([recruit\<lparr>e_state := CHASE\<rparr>], k, 0)
     = (10, [brute], k, 1)"
proof -
  have d: "getDistance (recruit\<lparr>e_state := CHASE\<rparr>) (5/2) (3/2) = 1"
    using recruit_distance by (simp add: getDistance_def)
  have t: "enemyTick rnd (clockFrom 1000) (5/2) (3/2) floor5 5 deltaTime (0, [], k, 0)
             (recruit\<lparr>e_state := CHASE\<rparr>)
      = (0 + e_damage (recruit\<lparr>e_state := CHASE\<rparr>),
         [] @ [recruit\<lparr>e_state := CHASE, e_state := ATTACK,
                        e_lastAttackTime := clockFrom 1000 0\<rparr>], k, 0 + 1)"
    by (rule chase_to_attack_tick) (simp_all add: d recruit_fields clockFrom_def)
  have b: "recruit\<lparr>e_state := CHASE, e_state := ATTACK, e_lastAttackTime := clockFrom 1000 0\<rparr>
      = brute"
    by (simp add: brute_def recruit_def clockFrom_def)
  show ?thesis using t b by (simp add: managerUpdate_def recruit_fields)
qed

section \<open>Frame controller: the animation loop (SimpleRaycaster.jsx, animate)\<close>

text \<open>
  The stats object that goes to \<^verbatim>\<open>setCompletionStats\<close> and \<^verbatim>\<open>saveGameToDatabase\<close>.
\<close>

record completionStats =
  cs_kills :: nat
  cs_gold :: real
  cs_timeElapsed :: real
  cs_healthRemaining :: real
  cs_itemsPurchased :: nat

text \<open>
  The loop is created inside \<^verbatim>\<open>useEffect(..., [gameData])\<close>.  What \<^verbatim>\<open>animate\<close> reads from
  the scope of the component is the value of the render in which the effect ran: the map,
  and the state constants \<^verbatim>\<open>levelComplete\<close>, \<^verbatim>\<open>gameOver\<close>, \<^verbatim>\<open>playerGold\<close> and
  \<^verbatim>\<open>inventory\<close>.  A later \<^verbatim>\<open>setPlayerGold\<close> changes the state of the component, not these.
\<close>

record closure =
  c_mapData :: "nat list"
  c_mapSize :: int
  c_startTime :: real
  c_levelComplete :: bool
  c_gameOver :: bool
  c_playerGold :: real
  c_inventory :: nat

text \<open>
  What the loop and the handlers share: the refs (\<^verbatim>\<open>playerRef\<close>, \<^verbatim>\<open>angleRef\<close>,
  \<^verbatim>\<open>gamePausedRef\<close>, \<^verbatim>\<open>enemyManagerRef\<close>, \<^verbatim>\<open>combatManagerRef\<close>), the variable \<^verbatim>\<open>lastTime\<close>,
  the state of the component, the list of the stats that were passed to
  \<^verbatim>\<open>saveGameToDatabase(stats, true)\<close>, whether a call of \<^verbatim>\<open>animate\<close> is requested from
  \<^verbatim>\<open>requestAnimationFrame\<close>, and the counters of \<open>rnd\<close> and \<open>clock\<close>.
\<close>

record game =
  g_lastTime :: real
  g_paused :: bool
  g_frameRequested :: bool
  g_x :: real
  g_y :: real
  g_dirX :: real
  g_dirY :: real
  g_angle :: real
  g_health :: real
  g_maxHealth :: real
  g_enemies :: "enemy list"
  g_combat :: combatManager
  g_rnd :: nat
  g_clock :: nat
  g_playerGold :: real
  g_inventory :: nat
  g_shopOpen :: bool
  g_levelComplete :: bool
  g_completionStats :: "completionStats option"
  g_saved :: "completionStats list"
  g_gameOver :: bool
  g_gameOverStats :: "completionStats option"

text \<open>The effect runs: the closure takes the state of the component as it is then.\<close>

definition mountLoop :: "nat list \<Rightarrow> int \<Rightarrow> real \<Rightarrow> game \<Rightarrow> closure" where
  "mountLoop mapData mapSize startTime g =
     \<lparr> c_mapData = mapData, c_mapSize = mapSize, c_startTime = startTime,
       c_levelComplete = g_levelComplete g, c_gameOver = g_gameOver g,
       c_playerGold = g_playerGold g, c_inventory = g_inventory g \<rparr>"

text \<open>
  One call of \<^verbatim>\<open>animate(now)\<close>, in the blocks of its body.  The keys held down and the
  angle of the camera shake are taken as they are when the call starts.

  Rotation and translation, up to \<^verbatim>\<open>playerRef.current.planeY = planeY\<close>.
\<close>

definition movePhase :: "closure \<Rightarrow> keys \<Rightarrow> real \<Rightarrow> real \<Rightarrow> game \<Rightarrow> game" where
  "movePhase cl k dt shakeAngle g =
     (let rotSpeed = 3;
          inputTurn = (if turnRight k then 1 else 0) + (if turnLeft k then - 1 else 0);
          angle = g_angle g + inputTurn * rotSpeed * dt;
          shakenAngle = angle + shakeAngle;
          dirX = cos shakenAngle;
          dirY = sin shakenAngle;
          p = movePlayer (c_mapData cl) (c_mapSize cl) dirX dirY k dt (g_x g, g_y g)
      in g\<lparr>g_angle := angle, g_x := fst p, g_y := snd p, g_dirX := dirX, g_dirY := dirY\<rparr>)"

text \<open>
  The body of \<^verbatim>\<open>if (mapData[playerTileIdx] === 9 && !levelComplete)\<close>; it returns without
  \<^verbatim>\<open>requestAnimationFrame\<close>.
\<close>

definition completeLevel :: "closure \<Rightarrow> (nat \<Rightarrow> real) \<Rightarrow> game \<Rightarrow> game" where
  "completeLevel cl clock g =
     (let timeElapsed = (clock (g_clock g) - c_startTime cl) / 1000;
          stats = \<lparr> cs_kills = cm_kills (g_combat g),
                    cs_gold = c_playerGold cl,
                    cs_timeElapsed = timeElapsed,
                    cs_healthRemaining = g_health g,
                    cs_itemsPurchased = c_inventory cl \<rparr>
      in g\<lparr>g_clock := g_clock g + 1,
            g_completionStats := Some stats,
            g_levelComplete := True,
            g_paused := True,
            g_saved := g_saved g @ [stats]\<rparr>)"

text \<open>
  The enemies and their damage.  The death of the player returns without
  \<^verbatim>\<open>requestAnimationFrame\<close>.  Otherwise the rest of the frame follows (crosshair, minimap,
  camera shake, sprites, rendering): it writes none of the fields of the model, \<open>tailRnd\<close>
  and \<open>tailClock\<close> are the numbers of \<^verbatim>\<open>Math.random()\<close> and \<^verbatim>\<open>Date.now()\<close> calls it makes,
  and it ends with \<^verbatim>\<open>requestAnimationFrame(animate)\<close>.
\<close>

definition playerDied :: "closure \<Rightarrow> (nat \<Rightarrow> real) \<Rightarrow> game \<Rightarrow> game" where
  "playerDied cl clock g =
     (let timeElapsed = (clock (g_clock g) - c_startTime cl) / 1000 in
      g\<lparr>g_clock := g_clock g + 1,
         g_gameOverStats :=
           Some \<lparr> cs_kills = cm_kills (g_combat g),
                  cs_gold = c_playerGold cl,
                  cs_timeElapsed = timeElapsed,
                  cs_healthRemaining = g_health g,
                  cs_itemsPurchased = c_inventory cl \<rparr>,
         g_gameOver := True,
         g_paused := True\<rparr>)"

definition enemyPhase ::
  "closure \<Rightarrow> (nat \<Rightarrow> real) \<Rightarrow> (nat \<Rightarrow> real) \<Rightarrow> real \<Rightarrow> nat \<Rightarrow> nat \<Rightarrow> game \<Rightarrow> game" where
  "enemyPhase cl rnd clock dt tailRnd tailClock g =
     (let u = managerUpdate rnd clock (g_x g) (g_y g) (c_mapData cl) (c_mapSize cl) dt
                (g_enemies g, g_rnd g, g_clock g);
          damage = fst u;
          g2 = g\<lparr>g_enemies := fst (snd u),
                 g_rnd := fst (snd (snd u)),
                 g_clock := snd (snd (snd u))\<rparr>;
          g3 = (if damage > 0 then g2\<lparr>g_health := max 0 (g_health g2 - damage)\<rparr> else g2)
      in if damage > 0 \<and> g_health g3 \<le> 0 \<and> \<not> c_gameOver cl then playerDied cl clock g3
         else g3\<lparr>g_rnd := g_rnd g3 + tailRnd,
                 g_clock := g_clock g3 + tailClock,
                 g_frameRequested := True\<rparr>)"

definition animate ::
  "closure \<Rightarrow> (nat \<Rightarrow> real) \<Rightarrow> (nat \<Rightarrow> real) \<Rightarrow> real \<Rightarrow> keys \<Rightarrow> real \<Rightarrow> nat \<Rightarrow> nat
     \<Rightarrow> game \<Rightarrow> game" where
  "animate cl rnd clock now k shakeAngle tailRnd tailClock g =
     (let dt = min (1/20) (max (1/1000) ((now - g_lastTime g) / 1000));
          g0 = g\<lparr>g_lastTime := now\<rparr>
      in if g_paused g0 then g0\<lparr>g_frameRequested := True\<rparr>
         else
           (let g1 = movePhase cl k dt shakeAngle g0;
                playerTileIdx = \<lfloor>g_y g1\<rfloor> * c_mapSize cl + \<lfloor>g_x g1\<rfloor>
            in if tileAt (c_mapData cl) playerTileIdx = Some 9 \<and> \<not> c_levelComplete cl
               then completeLevel cl clock g1
               else enemyPhase cl rnd clock dt tailRnd tailClock g1))"

subsection \<open>The handlers beside the loop\<close>

text \<open>
  \<^verbatim>\<open>getAliveEnemies()\<close> returns a new array of the same enemy objects: what \<^verbatim>\<open>shoot\<close> does
  to the enemies of that array is done to the enemies of the manager.
\<close>

fun writeBack :: "enemy list \<Rightarrow> enemy list \<Rightarrow> enemy list" where
  "writeBack [] alive = []"
| "writeBack (e # es) alive =
     (if isAlive e then
        (case alive of
           [] \<Rightarrow> e # writeBack es []
         | a # rest \<Rightarrow> a # writeBack es rest)
      else e # writeBack es alive)"

text \<open>
  The click with the pointer locked: \<^verbatim>\<open>combatManagerRef.current.shoot(...)\<close>, and gold for
  a kill.  A throwing \<^verbatim>\<open>shoot\<close> ends the handler.
\<close>

definition onShoot :: "closure \<Rightarrow> (nat \<Rightarrow> real) \<Rightarrow> (nat \<Rightarrow> real) \<Rightarrow> game \<Rightarrow> game" where
  "onShoot cl rnd clock g =
     (let enemies = getAliveEnemies (g_enemies g);
          g0 = g\<lparr>g_clock := g_clock g + 1\<rparr>
      in case shoot (clock (g_clock g)) (g_combat g) (g_x g) (g_y g) (g_dirX g) (g_dirY g)
                enemies (Some (c_mapData cl)) (c_mapSize cl) of
           Inl err \<Rightarrow> g0
         | Inr r \<Rightarrow>
             (let result = fst r;
                  g1 = g0\<lparr>g_combat := fst (snd r),
                          g_enemies := writeBack (g_enemies g) (snd (snd r))\<rparr>
              in case result of
                   FiredHit i died dmg far \<Rightarrow>
                     if died then
                       (let goldDrop = real_of_int \<lfloor>rnd (g_rnd g1) * 20\<rfloor> + 10 in
                        g1\<lparr>g_rnd := g_rnd g1 + 1, g_playerGold := g_playerGold g1 + goldDrop\<rparr>)
                     else g1
                 | _ \<Rightarrow> g1))"

text \<open>
  The shop: the callback that opens it, \<^verbatim>\<open>onPurchase(item)\<close> (with the price of the item,
  whether its type is \<^verbatim>\<open>'health'\<close>, and its effect) and \<^verbatim>\<open>onClose\<close>; the panel with the last
  two exists while the shop is open.
\<close>

definition onShopOpened :: "game \<Rightarrow> game" where
  "onShopOpened g = g\<lparr>g_shopOpen := True, g_paused := True\<rparr>"

definition onPurchase :: "real \<Rightarrow> bool \<Rightarrow> real option \<Rightarrow> game \<Rightarrow> game" where
  "onPurchase price isHealth effect g =
     (let g1 = g\<lparr>g_playerGold := g_playerGold g - price, g_inventory := g_inventory g + 1\<rparr>
      in if isHealth
         then g1\<lparr>g_health := min (g_maxHealth g1) (g_health g1 + orDefault effect 50)\<rparr>
         else g1)"

definition onShopClosed :: "game \<Rightarrow> game" where
  "onShopClosed g = g\<lparr>g_shopOpen := False, g_paused := False\<rparr>"

subsection \<open>Runs\<close>

text \<open>
  What can happen next: the browser calls \<^verbatim>\<open>animate\<close> when a frame is requested (and the
  request is used up), or one of the handlers runs.
\<close>

datatype event =
    Frame real keys real nat nat
  | Shoot
  | ShopOpened
  | Purchase real bool "real option"
  | ShopClosed

fun step :: "closure \<Rightarrow> (nat \<Rightarrow> real) \<Rightarrow> (nat \<Rightarrow> real) \<Rightarrow> game \<Rightarrow> event \<Rightarrow> game" where
  "step cl rnd clock g (Frame now k shakeAngle tailRnd tailClock) =
     (if g_frameRequested g
      then animate cl rnd clock now k shakeAngle tailRnd tailClock (g\<lparr>g_frameRequested := False\<rparr>)
      else g)"
| "step cl rnd clock g Shoot = onShoot cl rnd clock g"
| "step cl rnd clock g ShopOpened = onShopOpened g"
| "step cl rnd clock g (Purchase price isHealth effect) =
     (if g_shopOpen g then onPurchase price isHealth effect g else g)"
| "step cl rnd clock g ShopClosed = (if g_shopOpen g then onShopClosed g else g)"

definition play :: "closure \<Rightarrow> (nat \<Rightarrow> real) \<Rightarrow> (nat \<Rightarrow> real) \<Rightarrow> event list \<Rightarrow> game \<Rightarrow> game" where
  "play cl rnd clock events g = foldl (step cl rnd clock) g events"
subsection \<open>The completion is signalled at most once, and the loop stops with it\<close>

text \<open>
  Either no completion was signalled, or one was and no frame is requested.
\<close>

definition loopOk :: "game \<Rightarrow> bool" where
  "loopOk g = (g_saved g = [] \<or> (length (g_saved g) = 1 \<and> \<not> g_frameRequested g))"

lemma movePhase_keeps [simp]:
  "g_saved (movePhase cl k dt shakeAngle g) = g_saved g"
  "g_frameRequested (movePhase cl k dt shakeAngle g) = g_frameRequested g"
  "g_paused (movePhase cl k dt shakeAngle g) = g_paused g"
  "g_clock (movePhase cl k dt shakeAngle g) = g_clock g"
  "g_combat (movePhase cl k dt shakeAngle g) = g_combat g"
  "g_health (movePhase cl k dt shakeAngle g) = g_health g"
  by (simp_all add: movePhase_def Let_def)

lemma completeLevel_fields [simp]:
  "g_saved (completeLevel cl clock g)
     = g_saved g @ [\<lparr> cs_kills = cm_kills (g_combat g), cs_gold = c_playerGold cl,
                       cs_timeElapsed = (clock (g_clock g) - c_startTime cl) / 1000,
                       cs_healthRemaining = g_health g, cs_itemsPurchased = c_inventory cl \<rparr>]"
  "g_frameRequested (completeLevel cl clock g) = g_frameRequested g"
  "g_paused (completeLevel cl clock g)"
  by (simp_all add: completeLevel_def Let_def)

lemma playerDied_keeps [simp]:
  "g_saved (playerDied cl clock g) = g_saved g"
  by (simp add: playerDied_def Let_def)

lemma enemyPhase_keeps [simp]:
  "g_saved (enemyPhase cl rnd clock dt tailRnd tailClock g) = g_saved g"
proof -
  obtain damage es k c where u: "managerUpdate rnd clock (g_x g) (g_y g) (c_mapData cl)
      (c_mapSize cl) dt (g_enemies g, g_rnd g, g_clock g) = (damage, es, k, c)"
    by (metis prod_cases4)
  show ?thesis unfolding enemyPhase_def Let_def u by simp
qed

lemma animate_running:
  assumes "\<not> g_paused g"
    and "g1 = movePhase cl k (min (1/20) (max (1/1000) ((now - g_lastTime g) / 1000))) shakeAngle
               (g\<lparr>g_lastTime := now\<rparr>)"
  shows "animate cl rnd clock now k shakeAngle tailRnd tailClock g
     = (if tileAt (c_mapData cl) (\<lfloor>g_y g1\<rfloor> * c_mapSize cl + \<lfloor>g_x g1\<rfloor>) = Some 9
           \<and> \<not> c_levelComplete cl
        then completeLevel cl clock g1
        else enemyPhase cl rnd clock (min (1/20) (max (1/1000) ((now - g_lastTime g) / 1000)))
               tailRnd tailClock g1)"
  using assms by (simp add: animate_def Let_def)

lemma animate_loopOk:
  assumes "g_saved g = []" "\<not> g_frameRequested g"
  shows "loopOk (animate cl rnd clock now k shakeAngle tailRnd tailClock g)"
proof (cases "g_paused g")
  case True
  with assms show ?thesis by (simp add: animate_def Let_def loopOk_def)
next
  case False
  let ?dt = "min (1/20) (max (1/1000) ((now - g_lastTime g) / 1000))"
  let ?g1 = "movePhase cl k ?dt shakeAngle (g\<lparr>g_lastTime := now\<rparr>)"
  note a = animate_running[OF False refl, of cl rnd clock now k shakeAngle tailRnd tailClock]
  have s: "g_saved ?g1 = []" and f: "\<not> g_frameRequested ?g1" using assms by simp_all
  show ?thesis
  proof (cases "tileAt (c_mapData cl) (\<lfloor>g_y ?g1\<rfloor> * c_mapSize cl + \<lfloor>g_x ?g1\<rfloor>) = Some 9
                 \<and> \<not> c_levelComplete cl")
    case True
    then have "animate cl rnd clock now k shakeAngle tailRnd tailClock g
        = completeLevel cl clock ?g1" unfolding a by (rule if_P)
    with s f show ?thesis by (simp add: loopOk_def)
  next
    case c: False
    then have "animate cl rnd clock now k shakeAngle tailRnd tailClock g
        = enemyPhase cl rnd clock ?dt tailRnd tailClock ?g1" unfolding a by (rule if_not_P)
    with s show ?thesis by (simp add: loopOk_def)
  qed
qed

lemma onShoot_keeps [simp]:
  "g_saved (onShoot cl rnd clock g) = g_saved g"
  "g_frameRequested (onShoot cl rnd clock g) = g_frameRequested g"
  "g_x (onShoot cl rnd clock g) = g_x g"
  "g_y (onShoot cl rnd clock g) = g_y g"
  by (simp_all add: onShoot_def Let_def split: sum.splits shootResult.splits)

lemma handlers_keep [simp]:
  "g_saved (onShopOpened g) = g_saved g"
  "g_frameRequested (onShopOpened g) = g_frameRequested g"
  "g_x (onShopOpened g) = g_x g" "g_y (onShopOpened g) = g_y g"
  "g_enemies (onShopOpened g) = g_enemies g"
  "g_saved (onShopClosed g) = g_saved g"
  "g_frameRequested (onShopClosed g) = g_frameRequested g"
  "g_x (onShopClosed g) = g_x g" "g_y (onShopClosed g) = g_y g"
  "g_enemies (onShopClosed g) = g_enemies g"
  "g_saved (onPurchase price isHealth effect g) = g_saved g"
  "g_frameRequested (onPurchase price isHealth effect g) = g_frameRequested g"
  "g_x (onPurchase price isHealth effect g) = g_x g"
  "g_y (onPurchase price isHealth effect g) = g_y g"
  "g_enemies (onPurchase price isHealth effect g) = g_enemies g"
  by (simp_all add: onShopOpened_def onShopClosed_def onPurchase_def Let_def)

lemma step_loopOk:
  assumes "loopOk g"
  shows "loopOk (step cl rnd clock g ev)"
proof (cases ev)
  case (Frame now k shakeAngle tailRnd tailClock)
  show ?thesis
  proof (cases "g_frameRequested g")
    case True
    with assms have "g_saved (g\<lparr>g_frameRequested := False\<rparr>) = []" by (simp add: loopOk_def)
    from animate_loopOk[OF this] True show ?thesis unfolding Frame by simp
  next
    case False
    with assms show ?thesis unfolding Frame by simp
  qed
qed (use assms in \<open>simp_all add: loopOk_def\<close>)

lemma play_loopOk: "loopOk g \<Longrightarrow> loopOk (play cl rnd clock events g)"
  unfolding play_def
  by (induction events arbitrary: g) (simp_all add: step_loopOk)

lemma completion_at_most_once:
  assumes "g_saved g = []"
  shows "length (g_saved (play cl rnd clock events g)) \<le> 1"
proof -
  have "loopOk g" using assms by (simp add: loopOk_def)
  from play_loopOk[OF this, of cl rnd clock events] show ?thesis
    by (auto simp add: loopOk_def)
qed

text \<open>
  After the completion no frame runs: whatever happens, nothing is signalled again and
  the player stays where it is; without shots the enemies stay as they are.
\<close>

lemma frame_after_completion:
  assumes "loopOk g" "g_saved g \<noteq> []"
  shows "step cl rnd clock g (Frame now k shakeAngle tailRnd tailClock) = g"
  using assms by (simp add: loopOk_def)

lemma step_after_completion:
  assumes "loopOk g" "g_saved g \<noteq> []"
  shows "g_saved (step cl rnd clock g ev) = g_saved g
       \<and> g_x (step cl rnd clock g ev) = g_x g \<and> g_y (step cl rnd clock g ev) = g_y g
       \<and> (ev \<noteq> Shoot \<longrightarrow> g_enemies (step cl rnd clock g ev) = g_enemies g)"
proof (cases ev)
  case (Frame now k shakeAngle tailRnd tailClock)
  with frame_after_completion[OF assms] show ?thesis by simp
qed simp_all

lemma play_after_completion:
  "loopOk g \<Longrightarrow> g_saved g \<noteq> [] \<Longrightarrow>
     g_saved (play cl rnd clock events g) = g_saved g
     \<and> g_x (play cl rnd clock events g) = g_x g \<and> g_y (play cl rnd clock events g) = g_y g
     \<and> (Shoot \<notin> set events \<longrightarrow> g_enemies (play cl rnd clock events g) = g_enemies g)"
  unfolding play_def
proof (induction events arbitrary: g)
  case Nil
  then show ?case by simp
next
  case (Cons ev events)
  note s = step_after_completion[OF Cons.prems, of cl rnd clock ev]
  have ok: "loopOk (step cl rnd clock g ev)" by (rule step_loopOk[OF Cons.prems(1)])
  have ne: "g_saved (step cl rnd clock g ev) \<noteq> []" using s Cons.prems(2) by simp
  from Cons.IH[OF ok ne] s show ?case by auto
qed

text \<open>
  The frame that puts the player on the portal tile signals the completion; the gold of
  its stats is the gold of the closure.
\<close>

lemma portal_frame:
  assumes "g_frameRequested g" "\<not> g_paused g" "\<not> c_levelComplete cl"
    and "g1 = movePhase cl k (min (1/20) (max (1/1000) ((now - g_lastTime g) / 1000))) shakeAngle
               (g\<lparr>g_frameRequested := False, g_lastTime := now\<rparr>)"
    and "tileAt (c_mapData cl) (\<lfloor>g_y g1\<rfloor> * c_mapSize cl + \<lfloor>g_x g1\<rfloor>) = Some 9"
  shows "step cl rnd clock g (Frame now k shakeAngle tailRnd tailClock) = completeLevel cl clock g1"
  using assms by (simp add: animate_def Let_def)
subsection \<open>C10: the stats of the completion\<close>

text \<open>
  A 3 by 3 map with the portal in the middle of its first row.  The loop is created with
  100 gold, the player just left of the portal and looking at it.  The player buys an
  item for 30 gold in the shop, closes the shop, and the next frame walks onto the
  portal.
\<close>

definition exit3 :: "nat list" where
  "exit3 = [0, 9, 0, 0, 0, 0, 0, 0, 0]"

definition walk :: keys where
  "walk = \<lparr> forward = True, backward = False, strafeLeft = False, strafeRight = False,
            turnLeft = False, turnRight = False \<rparr>"

definition start0 :: game where
  "start0 = \<lparr> g_lastTime = 0, g_paused = False, g_frameRequested = True,
              g_x = 9/10, g_y = 1/2, g_dirX = 1, g_dirY = 0, g_angle = 0,
              g_health = 100, g_maxHealth = 100, g_enemies = [],
              g_combat = newCombatManager ''pistol'', g_rnd = 0, g_clock = 0,
              g_playerGold = 100, g_inventory = 0, g_shopOpen = False,
              g_levelComplete = False, g_completionStats = None, g_saved = [],
              g_gameOver = False, g_gameOverStats = None \<rparr>"

definition loop0 :: closure where
  "loop0 = mountLoop exit3 3 0 start0"

definition shopping :: "event list" where
  "shopping = [ShopOpened, Purchase 30 False None, ShopClosed]"

lemma loop0_fields:
  "c_mapData loop0 = exit3" "c_mapSize loop0 = 3" "c_startTime loop0 = 0"
  "c_levelComplete loop0 = False" "c_playerGold loop0 = 100" "c_inventory loop0 = 0"
  by (simp_all add: loop0_def mountLoop_def start0_def)

lemma after_shopping:
  "play loop0 rnd clock shopping start0 = start0\<lparr>g_playerGold := 70, g_inventory := 1\<rparr>"
  by (simp add: play_def shopping_def onShopOpened_def onPurchase_def onShopClosed_def
      start0_def Let_def)

lemma onto_portal:
  "movePhase loop0 walk (1/20) 0 (start0\<lparr>g_playerGold := 70, g_inventory := 1,
       g_frameRequested := False, g_lastTime := 1000\<rparr>)
   = start0\<lparr>g_playerGold := 70, g_inventory := 1, g_frameRequested := False,
            g_lastTime := 1000, g_x := 21/20\<rparr>"
  by (simp add: movePhase_def Let_def movePlayer_def moveForward_def moveStrafe_def
      inputMove_def inputStrafe_def walkSpeed_def walk_def loop0_fields tileAt_def exit3_def
      start0_def)

text \<open>
  C10 at this input.  The gold of the player is 70 when the completion is signalled,
  and the signal carries the 100 gold (and the 0 items) that the closure of the loop
  holds; a further frame adds no second signal.
\<close>

theorem C10_completion_gold_stale:
  "g_playerGold (play loop0 (\<lambda>n. 0) (clockFrom 5000)
       (shopping @ [Frame 1000 walk 0 0 0, Frame 1016 walk 0 0 0]) start0) = 70
   \<and> g_saved (play loop0 (\<lambda>n. 0) (clockFrom 5000)
       (shopping @ [Frame 1000 walk 0 0 0, Frame 1016 walk 0 0 0]) start0)
     = [\<lparr> cs_kills = 0, cs_gold = 100, cs_timeElapsed = 5, cs_healthRemaining = 100,
           cs_itemsPurchased = 0 \<rparr>]"
proof -
  let ?g = "start0\<lparr>g_playerGold := 70, g_inventory := 1\<rparr>"
  let ?g1 = "start0\<lparr>g_playerGold := 70, g_inventory := 1, g_frameRequested := False,
                    g_lastTime := 1000, g_x := 21/20\<rparr>"
  have dt: "min (1/20) (max (1/1000) ((1000 - g_lastTime ?g) / 1000)) = (1/20::real)"
    by (simp add: start0_def)
  have m: "?g1 = movePhase loop0 walk (min (1/20) (max (1/1000) ((1000 - g_lastTime ?g) / 1000))) 0
                   (?g\<lparr>g_frameRequested := False, g_lastTime := 1000\<rparr>)"
    unfolding dt using onto_portal by simp
  have t: "tileAt (c_mapData loop0) (\<lfloor>g_y ?g1\<rfloor> * c_mapSize loop0 + \<lfloor>g_x ?g1\<rfloor>) = Some 9"
    by (simp add: loop0_fields tileAt_def exit3_def start0_def)
  have first: "step loop0 (\<lambda>n. 0) (clockFrom 5000) ?g (Frame 1000 walk 0 0 0)
      = completeLevel loop0 (clockFrom 5000) ?g1"
    by (rule portal_frame[OF _ _ _ m t]) (simp_all add: start0_def loop0_fields)
  have second: "step loop0 (\<lambda>n. 0) (clockFrom 5000) (completeLevel loop0 (clockFrom 5000) ?g1)
        (Frame 1016 walk 0 0 0) = completeLevel loop0 (clockFrom 5000) ?g1"
    by (simp add: start0_def)
  have run: "play loop0 (\<lambda>n. 0) (clockFrom 5000)
       (shopping @ [Frame 1000 walk 0 0 0, Frame 1016 walk 0 0 0]) start0
     = completeLevel loop0 (clockFrom 5000) ?g1"
    using after_shopping[of "\<lambda>n. 0" "clockFrom 5000"] first second
    by (simp add: play_def)
  show ?thesis
    unfolding run
    by (simp add: completeLevel_def Let_def loop0_fields start0_def clockFrom_def
        newCombatManager_def)
qed

end
